theory Spec2Isabelle
  imports Main
begin

section \<open>Text: Python strings as lists of code points\<close>

text \<open>
  A Python \<^verbatim>\<open>str\<close> is a sequence of Unicode code points, and the program's
  patterns and book names are Korean, so a string is a list of code points (natural
  numbers), not a list of bytes.
\<close>

type_synonym ustring = "nat list"

text \<open>
  The characters for which \<^verbatim>\<open>str.isspace\<close> holds; \<^verbatim>\<open>\s\<close> in a \<^verbatim>\<open>str\<close>
  pattern and \<^verbatim>\<open>str.strip()\<close> use the same set (Unicode 14.0, the table of
  CPython 3.11).
\<close>

definition space_chars :: "nat list" where
  "space_chars =
    [0x9, 0xA, 0xB, 0xC, 0xD, 0x1C, 0x1D, 0x1E,
     0x1F, 0x20, 0x85, 0xA0, 0x1680, 0x2000, 0x2001, 0x2002,
     0x2003, 0x2004, 0x2005, 0x2006, 0x2007, 0x2008, 0x2009, 0x200A,
     0x2028, 0x2029, 0x202F, 0x205F, 0x3000]"

definition is_space :: "nat \<Rightarrow> bool" where
  "is_space c = (c \<in> set space_chars)"

text \<open>
  The decimal digits (category Nd) come in blocks of ten consecutive code points, zero
  first; \<open>decimal_zeros\<close> lists the zero of every block (Unicode 14.0). \<^verbatim>\<open>\d\<close> in
  a \<^verbatim>\<open>str\<close> pattern matches exactly these characters, and \<^verbatim>\<open>int()\<close> reads each
  of them as its digit value.
\<close>

definition decimal_zeros :: "nat list" where
  "decimal_zeros =
    [0x30, 0x660, 0x6F0, 0x7C0, 0x966, 0x9E6, 0xA66, 0xAE6,
     0xB66, 0xBE6, 0xC66, 0xCE6, 0xD66, 0xDE6, 0xE50, 0xED0,
     0xF20, 0x1040, 0x1090, 0x17E0, 0x1810, 0x1946, 0x19D0, 0x1A80,
     0x1A90, 0x1B50, 0x1BB0, 0x1C40, 0x1C50, 0xA620, 0xA8D0, 0xA900,
     0xA9D0, 0xA9F0, 0xAA50, 0xABF0, 0xFF10, 0x104A0, 0x10D30, 0x11066,
     0x110F0, 0x11136, 0x111D0, 0x112F0, 0x11450, 0x114D0, 0x11650, 0x116C0,
     0x11730, 0x118E0, 0x11950, 0x11C50, 0x11D50, 0x11DA0, 0x16A60, 0x16AC0,
     0x16B50, 0x1D7CE, 0x1D7D8, 0x1D7E2, 0x1D7EC, 0x1D7F6, 0x1E140, 0x1E2F0,
     0x1E950, 0x1FBF0]"

definition decimal_digit :: "nat \<Rightarrow> nat option" where
  "decimal_digit c =
    (case filter (\<lambda>z. z \<le> c \<and> c < z + 10) decimal_zeros of
       [] \<Rightarrow> None
     | z # _ \<Rightarrow> Some (c - z))"

definition is_decimal :: "nat \<Rightarrow> bool" where
  "is_decimal c = (decimal_digit c \<noteq> None)"

definition is_ascii_digit :: "nat \<Rightarrow> bool" where
  "is_ascii_digit c = (0x30 \<le> c \<and> c \<le> 0x39)"

text \<open>The class \<^verbatim>\<open>[\uAC00-\uD7A3]\<close> of the patterns: the Hangul syllables.\<close>

definition is_hangul :: "nat \<Rightarrow> bool" where
  "is_hangul c = (0xAC00 \<le> c \<and> c \<le> 0xD7A3)"

text \<open>\<^verbatim>\<open>str.strip()\<close> with no argument removes white space at both ends.\<close>

definition py_strip :: "ustring \<Rightarrow> ustring" where
  "py_strip s = rev (dropWhile is_space (rev (dropWhile is_space s)))"

text \<open>
  \<^verbatim>\<open>str.replace(old, new)\<close> replaces the occurrences of \<open>old\<close> from left to right,
  without overlap. The program only calls it with a non-empty \<open>old\<close>; for an empty
  \<open>old\<close> this function returns the string unchanged, which is not what Python does.
\<close>

function py_replace :: "ustring \<Rightarrow> ustring \<Rightarrow> ustring \<Rightarrow> ustring" where
  "py_replace old new [] = []"
| "py_replace old new (c # cs) =
     (if old \<noteq> [] \<and> take (length old) (c # cs) = old
      then new @ py_replace old new (drop (length old) (c # cs))
      else c # py_replace old new cs)"
  by pat_completeness auto
termination
  by (relation "measure (\<lambda>(old, new, s). length s)") (auto simp: neq_Nil_conv)

text \<open>
  \<^verbatim>\<open>int(s)\<close> on a string: white space at both ends is dropped, one sign may
  follow, then come decimal digits (any Unicode decimal digit), where single
  underscores may stand between digits. Anything else raises ValueError (\<open>None\<close>).
  The white space of \<^verbatim>\<open>int\<close> is that of \<^verbatim>\<open>str.isspace\<close> without the four
  separators U+001C to U+001F. The interpreter's limit on the length of a decimal
  string (\<^verbatim>\<open>sys.set_int_max_str_digits\<close>, a setting of the running interpreter:
  4300 digits unless it is changed, above which \<^verbatim>\<open>int\<close> raises ValueError) is not
  part of the program and is not modelled: integers are unbounded. So \<open>py_int\<close> is
  \<^verbatim>\<open>int\<close> on every string that the interpreter converts, and what is said below
  about the numbers of a reference describes the program on the texts whose numbers
  the interpreter converts.
\<close>

definition is_int_space :: "nat \<Rightarrow> bool" where
  "is_int_space c = (is_space c \<and> \<not> (0x1C \<le> c \<and> c \<le> 0x1F))"

definition int_strip :: "ustring \<Rightarrow> ustring" where
  "int_strip s = rev (dropWhile is_int_space (rev (dropWhile is_int_space s)))"

fun py_int_body :: "bool \<Rightarrow> int \<Rightarrow> ustring \<Rightarrow> int option" where
  "py_int_body prev_digit acc [] = (if prev_digit then Some acc else None)"
| "py_int_body prev_digit acc (c # cs) =
     (case decimal_digit c of
        Some d \<Rightarrow> py_int_body True (10 * acc + int d) cs
      | None \<Rightarrow>
          if c = 0x5F \<and> prev_digit then py_int_body False acc cs else None)"

definition py_int :: "ustring \<Rightarrow> int option" where
  "py_int s =
    (case int_strip s of
       [] \<Rightarrow> None
     | c # cs \<Rightarrow>
         if c = 0x2D then map_option uminus (py_int_body False 0 cs)
         else if c = 0x2B then py_int_body False 0 cs
         else py_int_body False 0 (c # cs))"

section \<open>Regular expressions with backtracking\<close>

text \<open>
  The fragment of \<^verbatim>\<open>re\<close> that the two patterns of the program use: character
  classes, concatenation, the greedy \<^verbatim>\<open>*\<close> and \<^verbatim>\<open>?\<close>, and numbered groups
  (\<^verbatim>\<open>+\<close> is one copy followed by \<^verbatim>\<open>*\<close>).
\<close>

datatype regex =
    Cls "nat \<Rightarrow> bool"
  | Cat regex regex
  | Star regex
  | Opt regex
  | Grp nat regex

definition Plus :: "regex \<Rightarrow> regex" where
  "Plus r = Cat r (Star r)"

text \<open>What \<^verbatim>\<open>m.group(n)\<close> returns for every group number: \<open>None\<close> for a group that took no part in the match.\<close>

type_synonym groups = "nat \<Rightarrow> ustring option"

text \<open>
  \<open>rmatch r s g\<close> lists every way in which \<open>r\<close> matches a prefix of \<open>s\<close>, in the
  order in which the backtracking matcher tries them (a greedy operator tries one more
  repetition first). Each way is the rest of the text after the match and the groups
  set so far; a group records the text that its body consumed. The matcher returns
  the first way that lets the rest of the pattern match, which is the head of the list
  for the whole pattern.
\<close>

fun rmatch :: "regex \<Rightarrow> ustring \<Rightarrow> groups \<Rightarrow> (ustring \<times> groups) list" where
  "rmatch (Cls p) s g =
     (case s of [] \<Rightarrow> [] | c # cs \<Rightarrow> if p c then [(cs, g)] else [])"
| "rmatch (Cat a b) s g =
     concat (map (\<lambda>w. rmatch b (fst w) (snd w)) (rmatch a s g))"
| "rmatch (Star r) s g =
     concat (map (\<lambda>w. if length (fst w) < length s
                        then rmatch (Star r) (fst w) (snd w) else [])
                 (rmatch r s g)) @ [(s, g)]"
| "rmatch (Opt r) s g = rmatch r s g @ [(s, g)]"
| "rmatch (Grp n r) s g =
     map (\<lambda>w. (fst w, (snd w)(n \<mapsto> take (length s - length (fst w)) s)))
         (rmatch r s g)"

text \<open>
  \<^verbatim>\<open>pattern.finditer(text)\<close>: the matches from left to right, without overlap; the
  search for the next match starts where the last one ended. The argument is the
  text from the current position on (the patterns have no anchor and no look-behind,
  so the text before it plays no part). Both patterns of the program match at least
  one character; after an empty match this function moves on by one character.
\<close>

function finditer :: "regex \<Rightarrow> ustring \<Rightarrow> groups list" where
  "finditer r s =
     (case rmatch r s Map.empty of
        [] \<Rightarrow> (case s of [] \<Rightarrow> [] | c # cs \<Rightarrow> finditer r cs)
      | w # ws \<Rightarrow>
          if length (fst w) < length s then snd w # finditer r (fst w)
          else snd w # (case s of [] \<Rightarrow> [] | c # cs \<Rightarrow> finditer r cs))"
  by pat_completeness auto
termination
  by (relation "measure (\<lambda>(r, s). length s)") auto

section \<open>The reference parser\<close>

text \<open>
  \<^verbatim>\<open>pattern_range = ([\uAC00-\uD7A3]+[0-9]*\uC11C?)\s*(\d+):(\d+)[~-](?:(\d+):)?(\d+)\<close> and
  \<^verbatim>\<open>pattern_single = ([\uAC00-\uD7A3]+[0-9]*\uC11C?)\s*(\d+):(\d+)\<close>.
\<close>

definition book_part :: regex where
  "book_part =
     Grp 1 (Cat (Plus (Cls is_hangul))
             (Cat (Star (Cls is_ascii_digit)) (Opt (Cls (\<lambda>c. c = 0xC11C)))))"

definition number_group :: "nat \<Rightarrow> regex" where
  "number_group n = Grp n (Plus (Cls is_decimal))"

definition pattern_single :: regex where
  "pattern_single =
     Cat book_part
      (Cat (Star (Cls is_space))
        (Cat (number_group 2)
          (Cat (Cls (\<lambda>c. c = 0x3A)) (number_group 3))))"

definition pattern_range :: regex where
  "pattern_range =
     Cat book_part
      (Cat (Star (Cls is_space))
        (Cat (number_group 2)
          (Cat (Cls (\<lambda>c. c = 0x3A))
            (Cat (number_group 3)
              (Cat (Cls (\<lambda>c. c = 0x7E \<or> c = 0x2D))
                (Cat (Opt (Cat (number_group 4) (Cls (\<lambda>c. c = 0x3A))))
                  (number_group 5)))))))"

text \<open>The table \<^verbatim>\<open>book_mapping\<close>, in the order of the source (Genesis is 1, Revelation is 66).\<close>

definition book_mapping :: "(ustring \<times> int) list" where
  "book_mapping =
    [([0xCC3D, 0xC138, 0xAE30], 1),
     ([0xCD9C, 0xC560, 0xAD7D, 0xAE30], 2),
     ([0xB808, 0xC704, 0xAE30], 3),
     ([0xBBFC, 0xC218, 0xAE30], 4),
     ([0xC2E0, 0xBA85, 0xAE30], 5),
     ([0xC5EC, 0xD638, 0xC218, 0xC544], 6),
     ([0xC0AC, 0xC0AC, 0xAE30], 7),
     ([0xB8FB, 0xAE30], 8),
     ([0xC0AC, 0xBB34, 0xC5D8, 0xC0C1], 9),
     ([0xC0AC, 0xBB34, 0xC5D8, 0xD558], 10),
     ([0xC5F4, 0xC655, 0xAE30, 0xC0C1], 11),
     ([0xC5F4, 0xC655, 0xAE30, 0xD558], 12),
     ([0xC5ED, 0xB300, 0xC0C1], 13),
     ([0xC5ED, 0xB300, 0xD558], 14),
     ([0xC5D0, 0xC2A4, 0xB77C], 15),
     ([0xB290, 0xD5E4, 0xBBF8, 0xC57C], 16),
     ([0xC5D0, 0xC2A4, 0xB354], 17),
     ([0xC6A5, 0xAE30], 18),
     ([0xC2DC, 0xD3B8], 19),
     ([0xC7A0, 0xC5B8], 20),
     ([0xC804, 0xB3C4, 0xC11C], 21),
     ([0xC544, 0xAC00], 22),
     ([0xC774, 0xC0AC, 0xC57C], 23),
     ([0xC608, 0xB808, 0xBBF8, 0xC57C], 24),
     ([0xC608, 0xB808, 0xBBF8, 0xC57C, 0xC560, 0xAC00], 25),
     ([0xC5D0, 0xC2A4, 0xAC94], 26),
     ([0xB2E4, 0xB2C8, 0xC5D8], 27),
     ([0xD638, 0xC138, 0xC544], 28),
     ([0xC694, 0xC5D8], 29),
     ([0xC544, 0xBAA8, 0xC2A4], 30),
     ([0xC624, 0xBC14, 0xB31C], 31),
     ([0xC694, 0xB098], 32),
     ([0xBBF8, 0xAC00], 33),
     ([0xB098, 0xD6D4], 34),
     ([0xD558, 0xBC15, 0xAD6D], 35),
     ([0xC2A4, 0xBC14, 0xB0D0], 36),
     ([0xD559, 0xAC1C], 37),
     ([0xC2A4, 0xAC00, 0xB7B4], 38),
     ([0xB9D0, 0xB77C, 0xAE30], 39),
     ([0xB9C8, 0xD0DC, 0xBCF5, 0xC74C], 40),
     ([0xB9C8, 0xAC00, 0xBCF5, 0xC74C], 41),
     ([0xB204, 0xAC00, 0xBCF5, 0xC74C], 42),
     ([0xC694, 0xD55C, 0xBCF5, 0xC74C], 43),
     ([0xC0AC, 0xB3C4, 0xD589, 0xC804], 44),
     ([0xB85C, 0xB9C8, 0xC11C], 45),
     ([0xACE0, 0xB9B0, 0xB3C4, 0xC804, 0xC11C], 46),
     ([0xACE0, 0xB9B0, 0xB3C4, 0xD6C4, 0xC11C], 47),
     ([0xAC08, 0xB77C, 0xB514, 0xC544, 0xC11C], 48),
     ([0xC5D0, 0xBCA0, 0xC18C, 0xC11C], 49),
     ([0xBE4C, 0xB9BD, 0xBCF4, 0xC11C], 50),
     ([0xACE8, 0xB85C, 0xC0C8, 0xC11C], 51),
     ([0xB370, 0xC0B4, 0xB85C, 0xB2C8, 0xAC00, 0xC804, 0xC11C], 52),
     ([0xB370, 0xC0B4, 0xB85C, 0xB2C8, 0xAC00, 0xD6C4, 0xC11C], 53),
     ([0xB514, 0xBAA8, 0xB370, 0xC804, 0xC11C], 54),
     ([0xB514, 0xBAA8, 0xB370, 0xD6C4, 0xC11C], 55),
     ([0xB514, 0xB3C4, 0xC11C], 56),
     ([0xBE4C, 0xB808, 0xBAAC, 0xC11C], 57),
     ([0xD788, 0xBE0C, 0xB9AC, 0xC11C], 58),
     ([0xC57C, 0xACE0, 0xBCF4, 0xC11C], 59),
     ([0xBCA0, 0xB4DC, 0xB85C, 0xC804, 0xC11C], 60),
     ([0xBCA0, 0xB4DC, 0xB85C, 0xD6C4, 0xC11C], 61),
     ([0xC694, 0xD55C, 0xC77C, 0xC11C], 62),
     ([0xC694, 0xD55C, 0xC774, 0xC11C], 63),
     ([0xC694, 0xD55C, 0xC0BC, 0xC11C], 64),
     ([0xC720, 0xB2E4, 0xC11C], 65),
     ([0xC694, 0xD55C, 0xACC4, 0xC2DC, 0xB85D], 66)]"

text \<open>
  The exceptions that the modelled code can raise: \<^verbatim>\<open>int()\<close> of a string that is
  no number (ValueError) or of \<^verbatim>\<open>None\<close> (TypeError), and a method call or
  attribute access on \<^verbatim>\<open>None\<close> (AttributeError).
\<close>

datatype error = ValueError | TypeError | AttributeError

text \<open>One parsed unit: the dictionary with the keys \<^verbatim>\<open>book\<close>, \<^verbatim>\<open>chapter\<close>, \<^verbatim>\<open>start\<close> and \<^verbatim>\<open>end\<close>.\<close>

record verse_unit =
  v_book :: int
  v_chapter :: int
  v_start :: int
  v_end :: int

text \<open>The lines that the program prints, one constructor for each \<^verbatim>\<open>print\<close>.\<close>

datatype log_msg =
    UnknownBookRange ustring
  | UnknownBookSingle ustring
  | FailedToParse ustring
  | FetchError ustring
  | UnknownTimezone ustring
  | UnexpectedError

text \<open>\<^verbatim>\<open>int(m.group(n))\<close>.\<close>

definition int_group :: "groups \<Rightarrow> nat \<Rightarrow> error + int" where
  "int_group m n =
     (case m n of
        None \<Rightarrow> Inl TypeError
      | Some w \<Rightarrow> (case py_int w of None \<Rightarrow> Inl ValueError | Some i \<Rightarrow> Inr i))"

text \<open>Python's truth value of \<^verbatim>\<open>bk\<close> (a number or \<^verbatim>\<open>None\<close>) and of a group.\<close>

definition truthy_int :: "int option \<Rightarrow> bool" where
  "truthy_int bk = (case bk of None \<Rightarrow> False | Some b \<Rightarrow> b \<noteq> 0)"

definition truthy_str :: "ustring option \<Rightarrow> bool" where
  "truthy_str w = (case w of None \<Rightarrow> False | Some s \<Rightarrow> s \<noteq> [])"

text \<open>
  The second lookup rewrites the spelled-out ordinals: U+C77C U+C11C to \<^verbatim>\<open>1\<close> U+C11C,
  U+C774 U+C11C to \<^verbatim>\<open>2\<close> U+C11C, and U+C0BC U+C11C to \<^verbatim>\<open>3\<close> U+C11C.
\<close>

definition alias_name :: "ustring \<Rightarrow> ustring" where
  "alias_name book_raw =
     py_replace [0xC0BC, 0xC11C] [0x33, 0xC11C]
       (py_replace [0xC774, 0xC11C] [0x32, 0xC11C]
         (py_replace [0xC77C, 0xC11C] [0x31, 0xC11C] book_raw))"

text \<open>
  \<^verbatim>\<open>bk = book_mapping.get(book_raw)\<close>, and when that is not true,
  \<^verbatim>\<open>bk = book_mapping.get(book_raw.replace(...).replace(...).replace(...))\<close>.
\<close>

definition book_lookup :: "ustring \<Rightarrow> int option" where
  "book_lookup book_raw =
     (let bk = map_of book_mapping book_raw
      in if \<not> truthy_int bk then map_of book_mapping (alias_name book_raw) else bk)"

text \<open>
  The body of the first loop for one match: an exception, or the warning of a skipped
  match (\<^verbatim>\<open>continue\<close>), or the units that the function returns.
\<close>

definition range_match :: "groups \<Rightarrow> error + (log_msg + verse_unit list)" where
  "range_match m =
     (case int_group m 2 of Inl e \<Rightarrow> Inl e | Inr start_ch \<Rightarrow>
      case int_group m 3 of Inl e \<Rightarrow> Inl e | Inr start_vs \<Rightarrow>
      case (if truthy_str (m 4) then int_group m 4 else Inr start_ch) of
        Inl e \<Rightarrow> Inl e | Inr end_ch \<Rightarrow>
      case int_group m 5 of Inl e \<Rightarrow> Inl e | Inr end_vs \<Rightarrow>
      case m 1 of None \<Rightarrow> Inl AttributeError | Some book_raw \<Rightarrow>
      case book_lookup book_raw of
        None \<Rightarrow> Inr (Inl (UnknownBookRange book_raw))
      | Some bk \<Rightarrow>
          if bk = 0 then Inr (Inl (UnknownBookRange book_raw))
          else if start_ch \<noteq> end_ch
          then Inr (Inr [\<lparr>v_book = bk, v_chapter = start_ch, v_start = start_vs, v_end = start_vs\<rparr>,
                         \<lparr>v_book = bk, v_chapter = end_ch, v_start = end_vs, v_end = end_vs\<rparr>])
          else Inr (Inr [\<lparr>v_book = bk, v_chapter = start_ch, v_start = start_vs, v_end = end_vs\<rparr>]))"

definition single_match :: "groups \<Rightarrow> error + (log_msg + verse_unit list)" where
  "single_match m =
     (case int_group m 2 of Inl e \<Rightarrow> Inl e | Inr chap \<Rightarrow>
      case int_group m 3 of Inl e \<Rightarrow> Inl e | Inr verse \<Rightarrow>
      case m 1 of None \<Rightarrow> Inl AttributeError | Some book_raw \<Rightarrow>
      case book_lookup book_raw of
        None \<Rightarrow> Inr (Inl (UnknownBookSingle book_raw))
      | Some bk \<Rightarrow>
          if bk = 0 then Inr (Inl (UnknownBookSingle book_raw))
          else Inr (Inr [\<lparr>v_book = bk, v_chapter = chap, v_start = verse, v_end = verse\<rparr>]))"

text \<open>
  A \<^verbatim>\<open>for\<close> loop over the matches: it ends with an exception, or returns the units
  of the first match whose book is known (\<open>Some\<close>), or runs out of matches (\<open>None\<close>).
  The printed warnings are collected on the way.
\<close>

fun match_loop ::
  "(groups \<Rightarrow> error + (log_msg + verse_unit list)) \<Rightarrow> groups list \<Rightarrow> log_msg list
     \<Rightarrow> error + (verse_unit list option \<times> log_msg list)" where
  "match_loop body [] out = Inr (None, out)"
| "match_loop body (m # ms) out =
     (case body m of
        Inl e \<Rightarrow> Inl e
      | Inr (Inl warning) \<Rightarrow> match_loop body ms (out @ [warning])
      | Inr (Inr results) \<Rightarrow> Inr (Some results, out))"

text \<open>
  The body of \<^verbatim>\<open>parse_bible_text\<close> after the two patterns have been run over the
  text: the first loop, then the second one if the first did not return, then the
  final warning. The result is the units returned and the lines printed, or an
  exception.
\<close>

definition parse_matches ::
  "groups list \<Rightarrow> groups list \<Rightarrow> ustring \<Rightarrow> error + (verse_unit list \<times> log_msg list)" where
  "parse_matches range_matches single_matches bible_text_input =
     (case match_loop range_match range_matches [] of
        Inl e \<Rightarrow> Inl e
      | Inr (Some results, out) \<Rightarrow> Inr (results, out)
      | Inr (None, out) \<Rightarrow>
         (case match_loop single_match single_matches out of
            Inl e \<Rightarrow> Inl e
          | Inr (Some results, out') \<Rightarrow> Inr (results, out')
          | Inr (None, out') \<Rightarrow>
              if py_strip bible_text_input \<noteq> []
              then Inr ([], out' @ [FailedToParse bible_text_input])
              else Inr ([], out')))"

definition parse_bible_text :: "ustring \<Rightarrow> error + (verse_unit list \<times> log_msg list)" where
  "parse_bible_text bible_text_input =
     parse_matches (finditer pattern_range bible_text_input)
       (finditer pattern_single bible_text_input) bible_text_input"

section \<open>The calendar fetcher\<close>

text \<open>
  The parsed document, as far as the program looks at it: a tag has a name, the
  values of its \<^verbatim>\<open>class\<close> attribute (\<open>None\<close> without the attribute; the HTML
  parser splits the attribute at white space) and children; the leaves are strings.
  Other attributes, and comments and the like (which \<^verbatim>\<open>.text\<close> leaves out), are
  not part of the model.
\<close>

datatype node =
    Tag ustring "ustring list option" "node list"
  | NavigableString ustring

text \<open>All nodes below a node, in document order (\<^verbatim>\<open>.descendants\<close>).\<close>

fun descendants :: "node \<Rightarrow> node list" where
  "descendants (NavigableString s) = []"
| "descendants (Tag name cls kids) = concat (map (\<lambda>k. k # descendants k) kids)"

text \<open>\<^verbatim>\<open>.text\<close>: the strings below a node, joined.\<close>

fun text_of :: "node \<Rightarrow> ustring" where
  "text_of (NavigableString s) = s"
| "text_of (Tag name cls kids) = concat (map text_of kids)"

text \<open>\<^verbatim>\<open>' '.join(values)\<close> and \<^verbatim>\<open>s.split()\<close>.\<close>

fun join_space :: "ustring list \<Rightarrow> ustring" where
  "join_space [] = []"
| "join_space [v] = v"
| "join_space (v # vs) = v @ 0x20 # join_space vs"

function py_split :: "ustring \<Rightarrow> ustring list" where
  "py_split s =
     (case dropWhile is_space s of
        [] \<Rightarrow> []
      | c # cs \<Rightarrow> takeWhile (\<lambda>x. \<not> is_space x) (c # cs)
                  # py_split (dropWhile (\<lambda>x. \<not> is_space x) cs))"
  by pat_completeness auto
termination
proof (relation "measure length", goal_cases)
  case 1
  show ?case by simp
next
  case (2 s c cs)
  have "length (dropWhile (\<lambda>x. \<not> is_space x) cs) \<le> length cs"
    by (rule length_dropWhile_le)
  moreover have "length (c # cs) \<le> length s"
    unfolding 2 [symmetric] by (rule length_dropWhile_le)
  ultimately show ?case by simp
qed

text \<open>
  How the library matches a \<^verbatim>\<open>class_\<close> argument against the values of the
  attribute: against each value, then against the values joined by spaces; a tag
  without the attribute matches neither a string nor the function of the program.
\<close>

definition class_matches :: "(ustring \<Rightarrow> bool) \<Rightarrow> ustring list option \<Rightarrow> bool" where
  "class_matches f cls =
     (case cls of None \<Rightarrow> False | Some vs \<Rightarrow> list_ex f vs \<or> f (join_space vs))"

text \<open>\<^verbatim>\<open>class_='name'\<close> and \<^verbatim>\<open>class_=lambda x: x and 'person' in x.split()\<close>.\<close>

definition has_class :: "ustring \<Rightarrow> ustring list option \<Rightarrow> bool" where
  "has_class name = class_matches (\<lambda>x. x = name)"

definition ascii :: "string \<Rightarrow> ustring" where
  "ascii s = map of_char s"

definition person_row :: "ustring list option \<Rightarrow> bool" where
  "person_row = class_matches (\<lambda>x. x \<noteq> [] \<and> ascii ''person'' \<in> set (py_split x))"

text \<open>\<^verbatim>\<open>find_all(name, class_=...)\<close> and \<^verbatim>\<open>find(name, class_=...)\<close>.\<close>

definition find_all :: "ustring \<Rightarrow> (ustring list option \<Rightarrow> bool) \<Rightarrow> node \<Rightarrow> node list" where
  "find_all name cond root =
     filter (\<lambda>n. case n of Tag nm cls kids \<Rightarrow> nm = name \<and> cond cls
                          | NavigableString s \<Rightarrow> False)
            (descendants root)"

definition find :: "ustring \<Rightarrow> (ustring list option \<Rightarrow> bool) \<Rightarrow> node \<Rightarrow> node option" where
  "find name cond root = (case find_all name cond root of [] \<Rightarrow> None | n # ns \<Rightarrow> Some n)"

text \<open>One record of \<^verbatim>\<open>schedule_data\<close>.\<close>

record day_record =
  day :: ustring
  bible :: ustring
  week :: "ustring option"
  title :: "ustring option"

text \<open>
  \<^verbatim>\<open>schedule_data\<close> is a dictionary; it keeps its keys in the order of their first
  insertion, which is the order of \<^verbatim>\<open>.values()\<close>. \<open>dict_set\<close> is
  \<^verbatim>\<open>d[k] = v\<close>.
\<close>

type_synonym schedule = "(ustring \<times> day_record) list"

fun dict_set :: "'k \<Rightarrow> 'v \<Rightarrow> ('k \<times> 'v) list \<Rightarrow> ('k \<times> 'v) list" where
  "dict_set k v [] = [(k, v)]"
| "dict_set k v (kv # d) = (if fst kv = k then (k, v) # d else kv # dict_set k v d)"

definition clean :: "node \<Rightarrow> ustring" where
  "clean n = py_replace [0xA0] [0x20] (py_strip (text_of n))"

text \<open>The body of the table pass for one cell.\<close>

definition table_cell :: "node \<Rightarrow> schedule \<Rightarrow> schedule" where
  "table_cell cell schedule_data =
     (case find (ascii ''span'') (has_class (ascii ''day'')) cell of
        None \<Rightarrow> schedule_data
      | Some d \<Rightarrow>
         (case find (ascii ''span'') (has_class (ascii ''bible'')) cell of
            None \<Rightarrow> schedule_data
          | Some b \<Rightarrow>
              if py_strip (text_of d) \<noteq> []
              then dict_set (py_strip (text_of d))
                     \<lparr>day = py_strip (text_of d), bible = clean b, week = None, title = None\<rparr>
                     schedule_data
              else schedule_data))"

definition table_pass :: "node \<Rightarrow> schedule \<Rightarrow> schedule" where
  "table_pass soup schedule_data =
     (case find (ascii ''div'') (has_class (ascii ''calendar-table'')) soup of
        None \<Rightarrow> schedule_data
      | Some table_view \<Rightarrow>
          fold (\<lambda>row. fold table_cell (find_all (ascii ''td'') (\<lambda>c. True) row))
               (drop 1 (find_all (ascii ''tr'') (\<lambda>c. True) table_view))
               schedule_data)"

text \<open>
  The body of the list pass for one row. \<^verbatim>\<open>t.find('span').text\<close> raises
  AttributeError when the cell has no \<^verbatim>\<open>span\<close>.
\<close>

definition span_text :: "node \<Rightarrow> error + ustring" where
  "span_text cell =
     (case find (ascii ''span'') (\<lambda>c. True) cell of
        None \<Rightarrow> Inl AttributeError
      | Some sp \<Rightarrow> Inr (py_strip (text_of sp)))"

definition list_row :: "node \<Rightarrow> schedule \<Rightarrow> error + schedule" where
  "list_row tr schedule_data =
     (case find (ascii ''td'') (has_class (ascii ''time'')) tr of
        None \<Rightarrow> Inr schedule_data | Some t \<Rightarrow>
      case find (ascii ''td'') (has_class (ascii ''name'')) tr of
        None \<Rightarrow> Inr schedule_data | Some n \<Rightarrow>
      case find (ascii ''td'') (has_class (ascii ''title'')) tr of
        None \<Rightarrow> Inr schedule_data | Some ti \<Rightarrow>
      case find (ascii ''td'') (has_class (ascii ''views'')) tr of
        None \<Rightarrow> Inr schedule_data | Some v \<Rightarrow>
      case span_text t of Inl e \<Rightarrow> Inl e | Inr d \<Rightarrow>
      case span_text n of Inl e \<Rightarrow> Inl e | Inr w \<Rightarrow>
      case span_text ti of Inl e \<Rightarrow> Inl e | Inr tt \<Rightarrow>
        Inr (dict_set d \<lparr>day = d, bible = clean v, week = Some w, title = Some tt\<rparr>
               schedule_data))"

fun list_rows :: "node list \<Rightarrow> schedule \<Rightarrow> error + schedule" where
  "list_rows [] schedule_data = Inr schedule_data"
| "list_rows (tr # trs) schedule_data =
     (case list_row tr schedule_data of
        Inl e \<Rightarrow> Inl e
      | Inr schedule_data' \<Rightarrow> list_rows trs schedule_data')"

definition list_pass :: "node \<Rightarrow> schedule \<Rightarrow> error + schedule" where
  "list_pass soup schedule_data =
     (case find (ascii ''div'') (has_class (ascii ''calendar-list'')) soup of
        None \<Rightarrow> Inr schedule_data
      | Some list_view \<Rightarrow>
          list_rows (find_all (ascii ''tr'') person_row list_view) schedule_data)"

text \<open>
  \<^verbatim>\<open>sorted(schedule_data.values(), key=lambda x: int(x['day']))\<close>: the sort is
  stable, and \<^verbatim>\<open>int\<close> raises ValueError on a day that is no number.
\<close>

definition day_number :: "day_record \<Rightarrow> int" where
  "day_number r = (case py_int (day r) of None \<Rightarrow> 0 | Some i \<Rightarrow> i)"

definition sorted_by_day :: "day_record list \<Rightarrow> error + day_record list" where
  "sorted_by_day rs =
     (if list_all (\<lambda>r. py_int (day r) \<noteq> None) rs
      then Inr (sort_key day_number rs) else Inl ValueError)"

text \<open>What the function does with the document once it is fetched and parsed.\<close>

definition schedule_of_soup :: "node \<Rightarrow> error + day_record list" where
  "schedule_of_soup soup =
     (case list_pass soup (table_pass soup []) of
        Inl e \<Rightarrow> Inl e
      | Inr schedule_data \<Rightarrow> sorted_by_day (map snd schedule_data))"

text \<open>\<^verbatim>\<open>str(i)\<close> and the format \<^verbatim>\<open>{i:02d}\<close> of an integer.\<close>

fun digits_of :: "nat \<Rightarrow> ustring" where
  "digits_of n = (if n < 10 then [0x30 + n] else digits_of (n div 10) @ [0x30 + n mod 10])"

definition py_str :: "int \<Rightarrow> ustring" where
  "py_str i = (if i < 0 then 0x2D # digits_of (nat (- i)) else digits_of (nat i))"

definition format_02d :: "int \<Rightarrow> ustring" where
  "format_02d i = (if 0 \<le> i \<and> i < 10 then 0x30 # py_str i else py_str i)"

definition calendar_url :: "int \<Rightarrow> int \<Rightarrow> ustring" where
  "calendar_url year month =
     ascii ''https://www.duranno.com/qt/view/calendar2.asp?onDate=''
       @ py_str year @ ascii ''-'' @ format_02d month"

text \<open>
  \<^verbatim>\<open>get_qt_schedule\<close>. The network is a parameter: \<open>http_get url\<close> is the parsed
  document of a successful response, or \<open>None\<close> when the request raises
  \<^verbatim>\<open>RequestException\<close>. The result is an exception, or what the function returns
  (\<open>None\<close> after a failed request) with the lines it printed.
\<close>

definition get_qt_schedule ::
  "(ustring \<Rightarrow> node option) \<Rightarrow> int \<Rightarrow> int \<Rightarrow> error + (day_record list option \<times> log_msg list)" where
  "get_qt_schedule http_get year month =
     (case http_get (calendar_url year month) of
        None \<Rightarrow> Inr (None, [FetchError (calendar_url year month)])
      | Some soup \<Rightarrow>
         (case schedule_of_soup soup of
            Inl e \<Rightarrow> Inl e
          | Inr sched \<Rightarrow> Inr (Some sched, [])))"

section \<open>The date resolver and the endpoint\<close>

text \<open>
  The date and time zone libraries are parameters: \<open>fromtimestamp ms\<close> is the UTC
  date and time of \<^verbatim>\<open>timestamp_ms / 1000\<close> (\<open>None\<close> when the library raises),
  \<open>timezone name\<close> is \<^verbatim>\<open>pytz.timezone(name)\<close> (\<open>None\<close> for
  \<^verbatim>\<open>UnknownTimeZoneError\<close>), and \<open>astimezone dt tz\<close> gives year, month and day
  of the local date (\<open>None\<close> when the library raises).
\<close>

record ('dt, 'tz) clock =
  fromtimestamp :: "int \<Rightarrow> 'dt option"
  timezone :: "ustring \<Rightarrow> 'tz option"
  astimezone :: "'dt \<Rightarrow> 'tz \<Rightarrow> (int \<times> int \<times> int) option"

text \<open>\<^verbatim>\<open>next((i['bible'] for i in sched if int(i['day']) == d), None)\<close>.\<close>

fun next_bible :: "int \<Rightarrow> day_record list \<Rightarrow> error + ustring option" where
  "next_bible d [] = Inr None"
| "next_bible d (i # sched) =
     (case py_int (day i) of
        None \<Rightarrow> Inl ValueError
      | Some k \<Rightarrow> if k = d then Inr (Some (bible i)) else next_bible d sched)"

text \<open>
  \<^verbatim>\<open>timestamp_to_qt_data_ms\<close>: the list it returns and the lines printed. The
  function catches every exception, so it always returns a list.
\<close>

definition timestamp_to_qt_data_ms ::
  "('dt, 'tz) clock \<Rightarrow> (ustring \<Rightarrow> node option) \<Rightarrow> int \<Rightarrow> ustring
     \<Rightarrow> verse_unit list \<times> log_msg list" where
  "timestamp_to_qt_data_ms clk http_get timestamp_ms timezone_str =
     (case fromtimestamp clk timestamp_ms of
        None \<Rightarrow> ([], [UnexpectedError])
      | Some dt_utc \<Rightarrow>
     (case timezone clk timezone_str of
        None \<Rightarrow> ([], [UnknownTimezone timezone_str])
      | Some target_timezone \<Rightarrow>
     (case astimezone clk dt_utc target_timezone of
        None \<Rightarrow> ([], [UnexpectedError])
      | Some (y, mo, d) \<Rightarrow>
     (case get_qt_schedule http_get y mo of
        Inl e \<Rightarrow> ([], [UnexpectedError])
      | Inr (None, out) \<Rightarrow> ([], out)
      | Inr (Some sched, out) \<Rightarrow>
          if sched = [] then ([], out)
          else
           (case next_bible d sched of
              Inl e \<Rightarrow> ([], out @ [UnexpectedError])
            | Inr None \<Rightarrow> ([], out)
            | Inr (Some b) \<Rightarrow>
                if b = [] then ([], out)
                else
                 (case parse_bible_text b of
                    Inl e \<Rightarrow> ([], out @ [UnexpectedError])
                  | Inr (results, out') \<Rightarrow> (results, out @ out')))))))"

text \<open>
  The endpoint \<^verbatim>\<open>/get-qt-bible-data\<close>: the two query parameters (\<open>None\<close> when
  absent) and the response.
\<close>

datatype response =
    TimestampRequired
  | InvalidTimestamp
  | InvalidTimezone ustring
  | NoDataFound
  | QtData "verse_unit list"

definition status :: "response \<Rightarrow> nat" where
  "status r =
     (case r of TimestampRequired \<Rightarrow> 400 | InvalidTimestamp \<Rightarrow> 400
      | InvalidTimezone tz \<Rightarrow> 400 | NoDataFound \<Rightarrow> 200 | QtData d \<Rightarrow> 200)"

definition get_qt_bible_data ::
  "('dt, 'tz) clock \<Rightarrow> (ustring \<Rightarrow> node option) \<Rightarrow> ustring option \<Rightarrow> ustring option
     \<Rightarrow> response" where
  "get_qt_bible_data clk http_get timestamp_ms_str timezone_arg =
     (let timezone_str = (case timezone_arg of None \<Rightarrow> ascii ''Asia/Seoul'' | Some z \<Rightarrow> z)
      in case timestamp_ms_str of
           None \<Rightarrow> TimestampRequired
         | Some ts \<Rightarrow>
            if ts = [] then TimestampRequired
            else
             (case py_int ts of
                None \<Rightarrow> InvalidTimestamp
              | Some timestamp_ms \<Rightarrow>
                 (case timezone clk timezone_str of
                    None \<Rightarrow> InvalidTimezone timezone_str
                  | Some tz \<Rightarrow>
                     (let qt_data =
                        fst (timestamp_to_qt_data_ms clk http_get timestamp_ms timezone_str)
                      in if qt_data = [] then NoDataFound else QtData qt_data))))"

section \<open>Notions used in the statements\<close>

text \<open>A non-empty string of decimal digits: what \<^verbatim>\<open>\d+\<close> matches.\<close>

definition digit_string :: "ustring \<Rightarrow> bool" where
  "digit_string w = (w \<noteq> [] \<and> list_all is_decimal w)"

text \<open>
  The groups of a match of \<open>pattern_single\<close> and of \<open>pattern_range\<close>: the book
  group is set and not empty, the number groups are digit strings, and group 4 is
  the only one that may be unset.
\<close>

definition single_groups :: "groups \<Rightarrow> bool" where
  "single_groups m =
     (\<exists>w1 w2 w3. m 1 = Some w1 \<and> w1 \<noteq> [] \<and> m 2 = Some w2 \<and> digit_string w2
        \<and> m 3 = Some w3 \<and> digit_string w3)"

definition range_groups :: "groups \<Rightarrow> bool" where
  "range_groups m =
     (\<exists>w1 w2 w3 w5. m 1 = Some w1 \<and> w1 \<noteq> [] \<and> m 2 = Some w2 \<and> digit_string w2
        \<and> m 3 = Some w3 \<and> digit_string w3 \<and> m 5 = Some w5 \<and> digit_string w5
        \<and> (m 4 = None \<or> (\<exists>w4. m 4 = Some w4 \<and> digit_string w4)))"

text \<open>The number that \<^verbatim>\<open>int(m.group(n))\<close> returns (0 stands for an exception).\<close>

definition group_int :: "groups \<Rightarrow> nat \<Rightarrow> int" where
  "group_int m n = (case int_group m n of Inl e \<Rightarrow> 0 | Inr i \<Rightarrow> i)"

text \<open>
  The book name of a match (\<^verbatim>\<open>m.group(1)\<close>) and the book that the table gives
  for it, \<open>None\<close> for a name that does not resolve.
\<close>

definition book_raw :: "groups \<Rightarrow> ustring" where
  "book_raw m = (case m 1 of None \<Rightarrow> [] | Some raw \<Rightarrow> raw)"

definition book_of :: "groups \<Rightarrow> int option" where
  "book_of m = (case m 1 of None \<Rightarrow> None | Some raw \<Rightarrow> book_lookup raw)"

text \<open>\<^verbatim>\<open>m.groups()\<close>: the five groups of a match, as a list.\<close>

definition group_list :: "groups \<Rightarrow> ustring option list" where
  "group_list m = [m 1, m 2, m 3, m 4, m 5]"

text \<open>
  The condition that the dictionary \<^verbatim>\<open>schedule_data\<close> keeps: its keys are distinct,
  and the record under a key has that key as its \<^verbatim>\<open>day\<close>.
\<close>

definition keyed_by_day :: "schedule \<Rightarrow> bool" where
  "keyed_by_day d = (distinct (map fst d) \<and> (\<forall>kv \<in> set d. day (snd kv) = fst kv))"

text \<open>A record as the list pass writes it: with a week label and a title.\<close>

definition from_list_view :: "ustring \<times> day_record \<Rightarrow> bool" where
  "from_list_view kv = (day (snd kv) = fst kv \<and> week (snd kv) \<noteq> None \<and> title (snd kv) \<noteq> None)"

text \<open>Assignments \<^verbatim>\<open>d[k] = v\<close>, one after the other.\<close>

definition dict_update :: "('k \<times> 'v) list \<Rightarrow> ('k \<times> 'v) list \<Rightarrow> ('k \<times> 'v) list" where
  "dict_update ups d = fold (\<lambda>kv. dict_set (fst kv) (snd kv)) ups d"


text \<open>
  Collaborators for the examples. \<open>serve soup\<close> is a network that answers every
  request with the document \<open>soup\<close>, and \<open>offline\<close> one where every request fails.
  \<open>test_clock\<close> converts the instants of the years 1 to 9999 (in milliseconds
  around 1970) and fails on the others, as the date library does; it knows the one
  zone Asia/Seoul and gives every instant the date 2025-05-18.
\<close>

definition serve :: "node \<Rightarrow> ustring \<Rightarrow> node option" where
  "serve soup url = Some soup"

definition offline :: "ustring \<Rightarrow> node option" where
  "offline url = None"

definition test_clock :: "(int, ustring) clock" where
  "test_clock =
     \<lparr>fromtimestamp =
        (\<lambda>ms. if - 62135596800000 \<le> ms \<and> ms \<le> 253402300799999 then Some ms else None),
      timezone = (\<lambda>name. if name = ascii ''Asia/Seoul'' then Some name else None),
      astimezone = (\<lambda>dt tz. Some (2025, 5, 18))\<rparr>"

text \<open>
  Documents for the examples: a cell of the table view, a row of the list view, and a
  page with a table view (a header row and one row of cells) and a list view.
\<close>

definition table_td :: "string \<Rightarrow> string \<Rightarrow> node" where
  "table_td d b =
     Tag (ascii ''td'') None
       [Tag (ascii ''span'') (Some [ascii ''day'']) [NavigableString (ascii d)],
        Tag (ascii ''span'') (Some [ascii ''bible'']) [NavigableString (ascii b)]]"

definition list_tr :: "string \<Rightarrow> string \<Rightarrow> string \<Rightarrow> string \<Rightarrow> node" where
  "list_tr d w t b =
     Tag (ascii ''tr'') (Some [ascii ''person''])
       [Tag (ascii ''td'') (Some [ascii ''time'']) [Tag (ascii ''span'') None [NavigableString (ascii d)]],
        Tag (ascii ''td'') (Some [ascii ''name'']) [Tag (ascii ''span'') None [NavigableString (ascii w)]],
        Tag (ascii ''td'') (Some [ascii ''title'']) [Tag (ascii ''span'') None [NavigableString (ascii t)]],
        Tag (ascii ''td'') (Some [ascii ''views'']) [NavigableString (ascii b)]]"

definition calendar_page :: "node list \<Rightarrow> node list \<Rightarrow> node" where
  "calendar_page cells rows =
     Tag (ascii ''[document]'') None
       [Tag (ascii ''div'') (Some [ascii ''calendar-table''])
          [Tag (ascii ''tr'') None [], Tag (ascii ''tr'') None cells],
        Tag (ascii ''div'') (Some [ascii ''calendar-list'']) rows]"

section \<open>Properties of the book table\<close>

lemma py_replace_changed:
  "old \<noteq> [] \<Longrightarrow> py_replace old (n # ns) s = s \<or> n \<in> set (py_replace old (n # ns) s)"
  by (induction old "n # ns" s rule: py_replace.induct) auto

lemma py_replace_keeps:
  "x \<in> set s \<Longrightarrow> x \<notin> set old \<Longrightarrow> x \<in> set (py_replace old new s)"
proof (induction old new s rule: py_replace.induct)
  case (1 old new)
  then show ?case by simp
next
  case (2 old new c cs)
  show ?case
  proof (cases "old \<noteq> [] \<and> take (length old) (c # cs) = old")
    case True
    have "set (c # cs) = set (take (length old) (c # cs)) \<union> set (drop (length old) (c # cs))"
      by (metis append_take_drop_id set_append)
    with True 2 have "x \<in> set (drop (length old) (c # cs))" by auto
    with True 2 show ?thesis by simp
  next
    case False
    with 2 show ?thesis by auto
  qed
qed

lemma alias_name_cases:
  "alias_name raw = raw \<or> 0x31 \<in> set (alias_name raw) \<or> 0x32 \<in> set (alias_name raw)
     \<or> 0x33 \<in> set (alias_name raw)"
proof -
  let ?a = "py_replace [0xC77C, 0xC11C] [0x31, 0xC11C] raw"
  let ?b = "py_replace [0xC774, 0xC11C] [0x32, 0xC11C] ?a"
  let ?c = "py_replace [0xC0BC, 0xC11C] [0x33, 0xC11C] ?b"
  have a: "?a = raw \<or> 0x31 \<in> set ?a" by (rule py_replace_changed) simp
  have b: "?b = ?a \<or> 0x32 \<in> set ?b" by (rule py_replace_changed) simp
  have c: "?c = ?b \<or> 0x33 \<in> set ?c" by (rule py_replace_changed) simp
  have ab: "0x31 \<in> set ?a \<Longrightarrow> 0x31 \<in> set ?b" by (rule py_replace_keeps) simp_all
  have bc1: "0x31 \<in> set ?b \<Longrightarrow> 0x31 \<in> set ?c" by (rule py_replace_keeps) simp_all
  have bc2: "0x32 \<in> set ?b \<Longrightarrow> 0x32 \<in> set ?c" by (rule py_replace_keeps) simp_all
  from a b c ab bc1 bc2 show ?thesis unfolding alias_name_def by metis
qed

lemma book_keys_no_digit:
  "\<forall>kv \<in> set book_mapping. 0x31 \<notin> set (fst kv) \<and> 0x32 \<notin> set (fst kv) \<and> 0x33 \<notin> set (fst kv)"
  by (simp add: book_mapping_def)

lemma book_values_range:
  "\<forall>kv \<in> set book_mapping. 1 \<le> snd kv \<and> snd kv \<le> 66"
  by (simp add: book_mapping_def)

lemma map_of_book_range:
  assumes "map_of book_mapping raw = Some bk"
  shows "1 \<le> bk \<and> bk \<le> 66"
  using map_of_SomeD [OF assms] book_values_range by fastforce

lemma alias_not_key:
  assumes "map_of book_mapping raw = None"
  shows "map_of book_mapping (alias_name raw) = None"
proof (rule ccontr)
  assume "map_of book_mapping (alias_name raw) \<noteq> None"
  then obtain bk where bk: "map_of book_mapping (alias_name raw) = Some bk" by auto
  then have mem: "(alias_name raw, bk) \<in> set book_mapping" by (rule map_of_SomeD)
  with book_keys_no_digit
  have "0x31 \<notin> set (alias_name raw) \<and> 0x32 \<notin> set (alias_name raw) \<and> 0x33 \<notin> set (alias_name raw)"
    by fastforce
  with alias_name_cases [of raw] have "alias_name raw = raw" by blast
  with bk assms show False by simp
qed

lemma book_lookup_exact: "book_lookup raw = map_of book_mapping raw"
proof (cases "map_of book_mapping raw")
  case None
  then show ?thesis by (simp add: book_lookup_def truthy_int_def alias_not_key)
next
  case (Some bk)
  with map_of_book_range [OF Some] show ?thesis
    by (simp add: book_lookup_def truthy_int_def)
qed

lemma book_lookup_range: "book_lookup raw = Some bk \<Longrightarrow> 1 \<le> bk \<and> bk \<le> 66"
  by (simp add: book_lookup_exact map_of_book_range)

text \<open>
  Claim C10. For every raw book name, the second lookup (after \<^verbatim>\<open>replace\<close> has
  rewritten the spelled-out ordinals to \<^verbatim>\<open>1\<close>, \<^verbatim>\<open>2\<close>, \<^verbatim>\<open>3\<close>) never finds a
  book when the first lookup found none, because no key of \<open>book_mapping\<close> holds a
  digit; so the lookup of a book is the exact lookup in the table, and it succeeds
  exactly for the keys of the table.
\<close>

theorem book_alias_lookup_never_resolves:
  "(\<not> truthy_int (map_of book_mapping raw) \<longrightarrow> \<not> truthy_int (map_of book_mapping (alias_name raw)))
   \<and> book_lookup raw = map_of book_mapping raw
   \<and> (truthy_int (book_lookup raw) \<longleftrightarrow> raw \<in> fst ` set book_mapping)"
proof (intro conjI impI)
  assume "\<not> truthy_int (map_of book_mapping raw)"
  then have "map_of book_mapping raw = None"
    using map_of_book_range [of raw] by (auto simp: truthy_int_def split: option.splits)
  then show "\<not> truthy_int (map_of book_mapping (alias_name raw))"
    by (simp add: alias_not_key truthy_int_def)
next
  show "book_lookup raw = map_of book_mapping raw" by (rule book_lookup_exact)
next
  have "truthy_int (map_of book_mapping raw) \<longleftrightarrow> map_of book_mapping raw \<noteq> None"
    using map_of_book_range [of raw] by (auto simp: truthy_int_def split: option.splits)
  also have "\<dots> \<longleftrightarrow> raw \<in> fst ` set book_mapping"
    by (simp add: map_of_eq_None_iff)
  finally show "truthy_int (book_lookup raw) \<longleftrightarrow> raw \<in> fst ` set book_mapping"
    by (simp add: book_lookup_exact)
qed

theorem book_alias_lookup_never_resolves_witness:
  "\<not> truthy_int (map_of book_mapping [0xAC00, 0xC77C, 0xC11C])
   \<and> alias_name [0xAC00, 0xC77C, 0xC11C] = [0xAC00, 0x31, 0xC11C]
   \<and> \<not> truthy_int (map_of book_mapping (alias_name [0xAC00, 0xC77C, 0xC11C]))
   \<and> book_lookup [0xAC00, 0xC77C, 0xC11C] = None
   \<and> [0xAC00, 0xC77C, 0xC11C] \<notin> fst ` set book_mapping"
  using book_alias_lookup_never_resolves [of "[0xAC00, 0xC77C, 0xC11C]"]
  by (simp add: alias_name_def truthy_int_def book_mapping_def)

section \<open>Properties of the matcher\<close>

declare finditer.simps [simp del]


lemma in_rmatch_Cls:
  "(s', g') \<in> set (rmatch (Cls p) s g) \<longleftrightarrow> (\<exists>c. s = c # s' \<and> p c \<and> g' = g)"
  by (cases s) auto

lemma in_rmatch_Cat:
  "(s', g') \<in> set (rmatch (Cat a b) s g) \<longleftrightarrow>
     (\<exists>s1 g1. (s1, g1) \<in> set (rmatch a s g) \<and> (s', g') \<in> set (rmatch b s1 g1))"
proof
  assume "(s', g') \<in> set (rmatch (Cat a b) s g)"
  then obtain w where "w \<in> set (rmatch a s g)" "(s', g') \<in> set (rmatch b (fst w) (snd w))"
    by auto
  then have "(fst w, snd w) \<in> set (rmatch a s g) \<and> (s', g') \<in> set (rmatch b (fst w) (snd w))"
    by simp
  then show "\<exists>s1 g1. (s1, g1) \<in> set (rmatch a s g) \<and> (s', g') \<in> set (rmatch b s1 g1)"
    by blast
next
  assume "\<exists>s1 g1. (s1, g1) \<in> set (rmatch a s g) \<and> (s', g') \<in> set (rmatch b s1 g1)"
  then obtain s1 g1 where "(s1, g1) \<in> set (rmatch a s g)" "(s', g') \<in> set (rmatch b s1 g1)"
    by blast
  then have "\<exists>w \<in> set (rmatch a s g). (s', g') \<in> set (rmatch b (fst w) (snd w))"
    by force
  then show "(s', g') \<in> set (rmatch (Cat a b) s g)" by simp
qed

lemma in_rmatch_Opt:
  "(s', g') \<in> set (rmatch (Opt r) s g) \<longleftrightarrow>
     (s', g') \<in> set (rmatch r s g) \<or> (s' = s \<and> g' = g)"
  by auto

lemma in_rmatch_Grp:
  "(s', g') \<in> set (rmatch (Grp n r) s g) \<longleftrightarrow>
     (\<exists>g1. (s', g1) \<in> set (rmatch r s g) \<and> g' = g1(n \<mapsto> take (length s - length s') s))"
  by (force simp: image_iff)

lemma rmatch_Star_Cls_Cons:
  "rmatch (Star (Cls p)) (c # cs) g =
     (if p c then rmatch (Star (Cls p)) cs g @ [(c # cs, g)] else [(c # cs, g)])"
  by simp

lemma in_rmatch_Star_Cls:
  "(s', g') \<in> set (rmatch (Star (Cls p)) s g) \<Longrightarrow> g' = g \<and> (\<exists>w. list_all p w \<and> s = w @ s')"
proof (induction s)
  case Nil
  then show ?case by simp
next
  case (Cons c cs)
  show ?case
  proof (cases "(s', g') = (c # cs, g)")
    case True
    then show ?thesis by simp
  next
    case False
    with Cons.prems have pc: "p c" and "(s', g') \<in> set (rmatch (Star (Cls p)) cs g)"
      by (auto simp: rmatch_Star_Cls_Cons simp del: rmatch.simps split: if_splits)
    with Cons.IH obtain w where "g' = g" "list_all p w" "cs = w @ s'" by blast
    with pc have "list_all p (c # w) \<and> c # cs = (c # w) @ s'" by simp
    with \<open>g' = g\<close> show ?thesis by blast
  qed
qed

lemma in_rmatch_Plus_Cls:
  assumes "(s', g') \<in> set (rmatch (Plus (Cls p)) s g)"
  shows "g' = g \<and> (\<exists>w. w \<noteq> [] \<and> list_all p w \<and> s = w @ s')"
proof -
  from assms obtain s1 g1 where a: "(s1, g1) \<in> set (rmatch (Cls p) s g)"
    and b: "(s', g') \<in> set (rmatch (Star (Cls p)) s1 g1)"
    unfolding Plus_def in_rmatch_Cat by blast
  from a obtain c where c: "s = c # s1" "p c" "g1 = g" unfolding in_rmatch_Cls by blast
  from in_rmatch_Star_Cls [OF b] obtain w where w: "g' = g1" "list_all p w" "s1 = w @ s'" by blast
  from c w have "c # w \<noteq> [] \<and> list_all p (c # w) \<and> s = (c # w) @ s'" by simp
  with c w show ?thesis by blast
qed

lemma in_rmatch_number_group:
  assumes "(s', g') \<in> set (rmatch (number_group n) s g)"
  shows "\<exists>w. digit_string w \<and> s = w @ s' \<and> g' = g(n \<mapsto> w)"
proof -
  from assms obtain g1 where a: "(s', g1) \<in> set (rmatch (Plus (Cls is_decimal)) s g)"
    and g': "g' = g1(n \<mapsto> take (length s - length s') s)"
    unfolding number_group_def in_rmatch_Grp by blast
  from in_rmatch_Plus_Cls [OF a] obtain w where "g1 = g" "w \<noteq> []" "list_all is_decimal w" "s = w @ s'"
    by blast
  with g' show ?thesis by (auto simp: digit_string_def)
qed

lemma in_rmatch_book_part:
  assumes "(s', g') \<in> set (rmatch book_part s g)"
  shows "\<exists>w. w \<noteq> [] \<and> is_hangul (hd w) \<and> s = w @ s' \<and> g' = g(1 \<mapsto> w)"
proof -
  let ?H = "Plus (Cls is_hangul)" and ?D = "Star (Cls is_ascii_digit)" and ?S = "Opt (Cls (\<lambda>c. c = 0xC11C))"
  from assms obtain g1 where a: "(s', g1) \<in> set (rmatch (Cat ?H (Cat ?D ?S)) s g)"
    and g': "g' = g1(1 \<mapsto> take (length s - length s') s)"
    unfolding book_part_def in_rmatch_Grp by blast
  from a obtain s1 g2 s2 g3 where h: "(s1, g2) \<in> set (rmatch ?H s g)"
    and d: "(s2, g3) \<in> set (rmatch ?D s1 g2)" and o: "(s', g1) \<in> set (rmatch ?S s2 g3)"
    unfolding in_rmatch_Cat by blast
  from in_rmatch_Plus_Cls [OF h] obtain w1 where w1: "g2 = g" "w1 \<noteq> []" "list_all is_hangul w1" "s = w1 @ s1"
    by blast
  from in_rmatch_Star_Cls [OF d] obtain w2 where w2: "g3 = g2" "s1 = w2 @ s2" by blast
  from o obtain w3 where w3: "g1 = g3" "s2 = w3 @ s'"
    unfolding in_rmatch_Opt in_rmatch_Cls by auto
  let ?w = "w1 @ w2 @ w3"
  from w1 w2 w3 have "s = ?w @ s'" by simp
  moreover from w1 have "?w \<noteq> []" "is_hangul (hd ?w)" by (cases w1; simp)+
  moreover from g' \<open>s = ?w @ s'\<close> w1 w2 w3 have "g' = g(1 \<mapsto> ?w)" by simp
  ultimately show ?thesis by blast
qed

lemma in_rmatch_pattern_single:
  assumes "(s', m) \<in> set (rmatch pattern_single s Map.empty)"
  shows "single_groups m \<and> length s' < length s \<and> is_hangul (hd s)"
proof -
  from assms obtain s1 g1 s2 g2 s3 g3 s4 g4 where
    b: "(s1, g1) \<in> set (rmatch book_part s Map.empty)"
    and sp: "(s2, g2) \<in> set (rmatch (Star (Cls is_space)) s1 g1)"
    and n2: "(s3, g3) \<in> set (rmatch (number_group 2) s2 g2)"
    and co: "(s4, g4) \<in> set (rmatch (Cls (\<lambda>c. c = 0x3A)) s3 g3)"
    and n3: "(s', m) \<in> set (rmatch (number_group 3) s4 g4)"
    unfolding pattern_single_def in_rmatch_Cat by blast
  from in_rmatch_book_part [OF b] obtain w1 where
    w1: "w1 \<noteq> []" "is_hangul (hd w1)" "s = w1 @ s1" "g1 = Map.empty(1 \<mapsto> w1)" by blast
  from in_rmatch_Star_Cls [OF sp] obtain ws where ws: "g2 = g1" "s1 = ws @ s2" by blast
  from in_rmatch_number_group [OF n2] obtain w2 where
    w2: "digit_string w2" "s2 = w2 @ s3" "g3 = g2(2 \<mapsto> w2)" by blast
  from co have c: "g4 = g3" "length s4 < length s3" unfolding in_rmatch_Cls by auto
  from in_rmatch_number_group [OF n3] obtain w3 where
    w3: "digit_string w3" "s4 = w3 @ s'" "m = g4(3 \<mapsto> w3)" by blast
  from w1 ws w2 c w3 have "single_groups m" by (auto simp: single_groups_def)
  moreover from w1 ws w2 c w3 have "length s' < length s" by simp
  moreover from w1 have "is_hangul (hd s)" by (cases w1) simp_all
  ultimately show ?thesis by blast
qed

lemma in_rmatch_pattern_range:
  assumes "(s', m) \<in> set (rmatch pattern_range s Map.empty)"
  shows "range_groups m \<and> length s' < length s \<and> is_hangul (hd s)"
proof -
  let ?O = "Opt (Cat (number_group 4) (Cls (\<lambda>c. c = 0x3A)))"
  from assms obtain s1 g1 s2 g2 s3 g3 s4 g4 s5 g5 s6 g6 s7 g7 where
    b: "(s1, g1) \<in> set (rmatch book_part s Map.empty)"
    and sp: "(s2, g2) \<in> set (rmatch (Star (Cls is_space)) s1 g1)"
    and n2: "(s3, g3) \<in> set (rmatch (number_group 2) s2 g2)"
    and co: "(s4, g4) \<in> set (rmatch (Cls (\<lambda>c. c = 0x3A)) s3 g3)"
    and n3: "(s5, g5) \<in> set (rmatch (number_group 3) s4 g4)"
    and se: "(s6, g6) \<in> set (rmatch (Cls (\<lambda>c. c = 0x7E \<or> c = 0x2D)) s5 g5)"
    and op: "(s7, g7) \<in> set (rmatch ?O s6 g6)"
    and n5: "(s', m) \<in> set (rmatch (number_group 5) s7 g7)"
    unfolding pattern_range_def in_rmatch_Cat by blast
  from in_rmatch_book_part [OF b] obtain w1 where
    w1: "w1 \<noteq> []" "is_hangul (hd w1)" "s = w1 @ s1" "g1 = Map.empty(1 \<mapsto> w1)" by blast
  from in_rmatch_Star_Cls [OF sp] obtain ws where ws: "g2 = g1" "s1 = ws @ s2" by blast
  from in_rmatch_number_group [OF n2] obtain w2 where
    w2: "digit_string w2" "s2 = w2 @ s3" "g3 = g2(2 \<mapsto> w2)" by blast
  from co have c: "g4 = g3" "length s4 < length s3" unfolding in_rmatch_Cls by auto
  from in_rmatch_number_group [OF n3] obtain w3 where
    w3: "digit_string w3" "s4 = w3 @ s5" "g5 = g4(3 \<mapsto> w3)" by blast
  from se have e: "g6 = g5" "length s6 < length s5" unfolding in_rmatch_Cls by auto
  from op have "(g7 = g6 \<and> s7 = s6) \<or>
      (\<exists>sa ga. (sa, ga) \<in> set (rmatch (number_group 4) s6 g6) \<and> g7 = ga \<and> length s7 < length sa)"
    unfolding in_rmatch_Opt in_rmatch_Cat in_rmatch_Cls by auto
  then have o: "length s7 \<le> length s6 \<and> (g7 = g6 \<or> (\<exists>w4. digit_string w4 \<and> g7 = g6(4 \<mapsto> w4)))"
    using in_rmatch_number_group by fastforce
  from in_rmatch_number_group [OF n5] obtain w5 where
    w5: "digit_string w5" "s7 = w5 @ s'" "m = g7(5 \<mapsto> w5)" by blast
  from w1 ws w2 c w3 e o w5 have "range_groups m" by (auto simp: range_groups_def)
  moreover from w1 ws w2 c w3 e o w5 have "length s' < length s" by simp
  moreover from w1 have "is_hangul (hd s)" by (cases w1) simp_all
  ultimately show ?thesis by blast
qed

lemma finditer_elem:
  "m \<in> set (finditer r s) \<Longrightarrow> \<exists>t s'. (s', m) \<in> set (rmatch r t Map.empty)"
proof (induction r s rule: finditer.induct)
  case (1 r s)
  from "1.prems" have mem:
    "m \<in> set (case rmatch r s Map.empty of
        [] \<Rightarrow> (case s of [] \<Rightarrow> [] | c # cs \<Rightarrow> finditer r cs)
      | w # ws \<Rightarrow>
          if length (fst w) < length s then snd w # finditer r (fst w)
          else snd w # (case s of [] \<Rightarrow> [] | c # cs \<Rightarrow> finditer r cs))"
    by (subst (asm) finditer.simps) simp
  show ?case
  proof (cases "rmatch r s Map.empty")
    case Nil
    with mem obtain c cs where "s = c # cs" "m \<in> set (finditer r cs)"
      by (cases s) auto
    with Nil "1.IH"(1) show ?thesis by blast
  next
    case (Cons w ws)
    then have hd: "(fst w, snd w) \<in> set (rmatch r s Map.empty)" by simp
    show ?thesis
    proof (cases "m = snd w")
      case True
      with hd show ?thesis by blast
    next
      case False
      show ?thesis
      proof (cases "length (fst w) < length s")
        case True
        with mem Cons False have "m \<in> set (finditer r (fst w))" by simp
        with Cons True "1.IH"(2) show ?thesis by blast
      next
        case short: False
        with mem Cons False obtain c cs where "s = c # cs" "m \<in> set (finditer r cs)"
          by (cases s) auto
        with Cons short "1.IH"(3) show ?thesis by blast
      qed
    qed
  qed
qed

lemma finditer_single_groups: "m \<in> set (finditer pattern_single s) \<Longrightarrow> single_groups m"
  using finditer_elem in_rmatch_pattern_single by blast

lemma finditer_range_groups: "m \<in> set (finditer pattern_range s) \<Longrightarrow> range_groups m"
  using finditer_elem in_rmatch_pattern_range by blast

section \<open>Numbers in a match\<close>

lemma space_not_decimal: "\<forall>c \<in> set space_chars. decimal_digit c = None"
  by (simp add: space_chars_def decimal_digit_def decimal_zeros_def)

lemma decimal_not_space: "is_decimal c \<Longrightarrow> \<not> is_space c"
  using space_not_decimal by (auto simp: is_decimal_def is_space_def)

lemma decimal_not_sign: "is_decimal c \<Longrightarrow> c \<noteq> 0x2D \<and> c \<noteq> 0x2B"
  by (auto simp: is_decimal_def decimal_digit_def decimal_zeros_def)

lemma space_not_hangul: "is_space c \<Longrightarrow> \<not> is_hangul c"
  by (auto simp: is_space_def space_chars_def is_hangul_def)

lemma py_strip_empty_iff: "py_strip s = [] \<longleftrightarrow> (\<forall>c \<in> set s. is_space c)"
proof
  assume "py_strip s = []"
  then have "\<forall>c \<in> set (dropWhile is_space s). is_space c"
    by (simp add: py_strip_def dropWhile_eq_Nil_conv)
  then have "dropWhile is_space s = []"
    using hd_dropWhile [of is_space s] by (cases "dropWhile is_space s") auto
  then show "\<forall>c \<in> set s. is_space c" by (simp add: dropWhile_eq_Nil_conv)
next
  assume "\<forall>c \<in> set s. is_space c"
  then have d: "dropWhile is_space s = []" by (simp add: dropWhile_eq_Nil_conv)
  show "py_strip s = []" unfolding py_strip_def d by simp
qed

lemma py_int_body_digits:
  "list_all is_decimal w \<Longrightarrow> 0 \<le> acc \<Longrightarrow> w \<noteq> [] \<or> prev \<Longrightarrow>
     \<exists>i. py_int_body prev acc w = Some i \<and> 0 \<le> i"
proof (induction w arbitrary: prev acc)
  case Nil
  then show ?case by simp
next
  case (Cons c w)
  from Cons.prems obtain d where d: "decimal_digit c = Some d" by (auto simp: is_decimal_def)
  from Cons.prems have "list_all is_decimal w" "0 \<le> 10 * acc + int d" by simp_all
  from Cons.IH [OF this, of True] d show ?case by simp
qed

lemma int_strip_id:
  assumes "w \<noteq> []" "\<not> is_space (hd w)" "\<not> is_space (last w)"
  shows "int_strip w = w"
proof -
  from assms have h: "\<not> is_int_space (hd w)" and l: "\<not> is_int_space (last w)"
    by (simp_all add: is_int_space_def)
  from assms(1) h have a: "dropWhile is_int_space w = w" by (cases w) simp_all
  from assms(1) l have "rev w \<noteq> []" "\<not> is_int_space (hd (rev w))" by (simp_all add: hd_rev)
  then have "dropWhile is_int_space (rev w) = rev w" by (cases "rev w") simp_all
  with a show ?thesis by (simp add: int_strip_def)
qed

lemma py_int_digit_string:
  assumes "digit_string w"
  shows "\<exists>i. py_int w = Some i \<and> 0 \<le> i"
proof -
  from assms obtain c cs where w: "w = c # cs" by (cases w) (auto simp: digit_string_def)
  from assms have all: "list_all is_decimal w" and ne: "w \<noteq> []" by (simp_all add: digit_string_def)
  from all ne have "is_decimal (hd w)" "is_decimal (last w)" by (auto simp: list_all_iff)
  then have "int_strip w = w" using ne by (intro int_strip_id decimal_not_space)
  moreover from all w have "c \<noteq> 0x2D" "c \<noteq> 0x2B" using decimal_not_sign [of c] by simp_all
  moreover from py_int_body_digits [OF all, of 0 False] ne
  obtain i where "py_int_body False 0 w = Some i" "0 \<le> i" by auto
  ultimately show ?thesis using w by (simp add: py_int_def)
qed

lemma int_group_digit_string:
  assumes "m n = Some w" "digit_string w"
  shows "int_group m n = Inr (group_int m n) \<and> 0 \<le> group_int m n"
  using assms py_int_digit_string [OF assms(2)]
  by (auto simp: int_group_def group_int_def)

section \<open>One match, and the loops over the matches\<close>

lemma range_match_unknown:
  assumes "range_groups m" "book_of m = None"
  shows "range_match m = Inr (Inl (UnknownBookRange (book_raw m)))"
proof -
  from assms(1) obtain w1 w2 w3 w5 where g: "m 1 = Some w1" "m 2 = Some w2" "digit_string w2"
    "m 3 = Some w3" "digit_string w3" "m 5 = Some w5" "digit_string w5"
    and g4: "m 4 = None \<or> (\<exists>w4. m 4 = Some w4 \<and> digit_string w4)"
    unfolding range_groups_def by blast
  note i2 = int_group_digit_string [of m 2, OF g(2,3)] and i3 = int_group_digit_string [of m 3, OF g(4,5)]
    and i5 = int_group_digit_string [of m 5, OF g(6,7)]
  from g4 have "\<exists>i. (if truthy_str (m 4) then int_group m 4 else Inr (group_int m 2)) = Inr i"
    using int_group_digit_string [of m 4] by (auto simp: truthy_str_def)
  then obtain i where "(if truthy_str (m 4) then int_group m 4 else Inr (group_int m 2)) = Inr i" ..
  with i2 i3 i5 g(1) assms(2) show ?thesis
    by (simp add: range_match_def book_of_def book_raw_def)
qed

lemma range_match_known:
  assumes "range_groups m" "book_of m = Some bk"
  shows "range_match m = Inr (Inr
     (if m 4 \<noteq> None \<and> group_int m 2 \<noteq> group_int m 4
      then [\<lparr>v_book = bk, v_chapter = group_int m 2, v_start = group_int m 3, v_end = group_int m 3\<rparr>,
            \<lparr>v_book = bk, v_chapter = group_int m 4, v_start = group_int m 5, v_end = group_int m 5\<rparr>]
      else [\<lparr>v_book = bk, v_chapter = group_int m 2, v_start = group_int m 3, v_end = group_int m 5\<rparr>]))"
proof -
  from assms(1) obtain w1 w2 w3 w5 where g: "m 1 = Some w1" "m 2 = Some w2" "digit_string w2"
    "m 3 = Some w3" "digit_string w3" "m 5 = Some w5" "digit_string w5"
    and g4: "m 4 = None \<or> (\<exists>w4. m 4 = Some w4 \<and> digit_string w4)"
    unfolding range_groups_def by blast
  note i2 = int_group_digit_string [of m 2, OF g(2,3)] and i3 = int_group_digit_string [of m 3, OF g(4,5)]
    and i5 = int_group_digit_string [of m 5, OF g(6,7)]
  from assms(2) g(1) have bk: "book_lookup w1 = Some bk" "bk \<noteq> 0"
    using book_lookup_range [of w1 bk] by (auto simp: book_of_def)
  show ?thesis
  proof (cases "m 4")
    case None
    with i2 i3 i5 g(1) bk show ?thesis
      by (simp add: range_match_def truthy_str_def)
  next
    case (Some w4)
    with g4 have "digit_string w4" by simp
    from int_group_digit_string [of m 4, OF Some this] Some \<open>digit_string w4\<close>
    have "int_group m 4 = Inr (group_int m 4)" "truthy_str (m 4)"
      by (simp_all add: truthy_str_def digit_string_def)
    with i2 i3 i5 g(1) bk Some show ?thesis
      by (simp add: range_match_def)
  qed
qed

lemma single_match_unknown:
  assumes "single_groups m" "book_of m = None"
  shows "single_match m = Inr (Inl (UnknownBookSingle (book_raw m)))"
proof -
  from assms(1) obtain w1 w2 w3 where g: "m 1 = Some w1" "m 2 = Some w2" "digit_string w2"
    "m 3 = Some w3" "digit_string w3"
    unfolding single_groups_def by blast
  note i2 = int_group_digit_string [of m 2, OF g(2,3)] and i3 = int_group_digit_string [of m 3, OF g(4,5)]
  from i2 i3 g(1) assms(2) show ?thesis
    by (simp add: single_match_def book_of_def book_raw_def)
qed

lemma single_match_known:
  assumes "single_groups m" "book_of m = Some bk"
  shows "single_match m = Inr (Inr
     [\<lparr>v_book = bk, v_chapter = group_int m 2, v_start = group_int m 3, v_end = group_int m 3\<rparr>])"
proof -
  from assms(1) obtain w1 w2 w3 where g: "m 1 = Some w1" "m 2 = Some w2" "digit_string w2"
    "m 3 = Some w3" "digit_string w3"
    unfolding single_groups_def by blast
  note i2 = int_group_digit_string [of m 2, OF g(2,3)] and i3 = int_group_digit_string [of m 3, OF g(4,5)]
  from assms(2) g(1) have bk: "book_lookup w1 = Some bk" "bk \<noteq> 0"
    using book_lookup_range [of w1 bk] by (auto simp: book_of_def)
  from i2 i3 g(1) bk show ?thesis
    by (simp add: single_match_def)
qed

lemma match_loop_skip:
  assumes "\<forall>u \<in> set us. body u = Inr (Inl (warn u))"
  shows "match_loop body (us @ ms) out = match_loop body ms (out @ map warn us)"
  using assms by (induction us arbitrary: out) simp_all

lemma match_loop_none:
  assumes "\<forall>u \<in> set us. body u = Inr (Inl (warn u))"
  shows "match_loop body us out = Inr (None, out @ map warn us)"
  using match_loop_skip [OF assms, of "[]" out] by simp

lemma match_loop_first:
  assumes "\<forall>u \<in> set us. body u = Inr (Inl (warn u))" "body m = Inr (Inr results)"
  shows "match_loop body (us @ m # rest) out = Inr (Some results, out @ map warn us)"
  using match_loop_skip [OF assms(1), of "m # rest" out] assms(2) by simp

section \<open>The result of the parser\<close>

lemma range_warnings:
  assumes "\<forall>u \<in> set us. book_of u = None" "set us \<subseteq> set (finditer pattern_range text)"
  shows "\<forall>u \<in> set us. range_match u = Inr (Inl (UnknownBookRange (book_raw u)))"
  using assms finditer_range_groups range_match_unknown by blast

lemma single_warnings:
  assumes "\<forall>u \<in> set us. book_of u = None" "set us \<subseteq> set (finditer pattern_single text)"
  shows "\<forall>u \<in> set us. single_match u = Inr (Inl (UnknownBookSingle (book_raw u)))"
  using assms finditer_single_groups single_match_unknown by blast

lemma parse_range_first:
  assumes "finditer pattern_range text = us @ m # rest"
    and "\<forall>u \<in> set us. book_of u = None" and "book_of m = Some bk"
  shows "match_loop range_match (finditer pattern_range text) [] =
     Inr (Some
       (if m 4 \<noteq> None \<and> group_int m 2 \<noteq> group_int m 4
        then [\<lparr>v_book = bk, v_chapter = group_int m 2, v_start = group_int m 3, v_end = group_int m 3\<rparr>,
              \<lparr>v_book = bk, v_chapter = group_int m 4, v_start = group_int m 5, v_end = group_int m 5\<rparr>]
        else [\<lparr>v_book = bk, v_chapter = group_int m 2, v_start = group_int m 3, v_end = group_int m 5\<rparr>]),
       map (\<lambda>u. UnknownBookRange (book_raw u)) us)"
proof -
  from assms(1) have sub: "set us \<subseteq> set (finditer pattern_range text)"
    and "m \<in> set (finditer pattern_range text)" by auto
  then have "range_groups m" by (simp add: finditer_range_groups)
  note known = range_match_known [OF this assms(3)]
  from match_loop_first [OF range_warnings [OF assms(2) sub] known, of rest "[]"] assms(1)
  show ?thesis by simp
qed

lemma parse_range_none:
  assumes "\<forall>u \<in> set (finditer pattern_range text). book_of u = None"
  shows "match_loop range_match (finditer pattern_range text) [] =
     Inr (None, map (\<lambda>u. UnknownBookRange (book_raw u)) (finditer pattern_range text))"
  using match_loop_none [OF range_warnings [OF assms subset_refl], of "[]"] by simp

lemma parse_single_first:
  assumes "finditer pattern_single text = us @ m # rest"
    and "\<forall>u \<in> set us. book_of u = None" and "book_of m = Some bk"
  shows "match_loop single_match (finditer pattern_single text) out =
     Inr (Some [\<lparr>v_book = bk, v_chapter = group_int m 2, v_start = group_int m 3, v_end = group_int m 3\<rparr>],
          out @ map (\<lambda>u. UnknownBookSingle (book_raw u)) us)"
proof -
  from assms(1) have sub: "set us \<subseteq> set (finditer pattern_single text)"
    and "m \<in> set (finditer pattern_single text)" by auto
  then have "single_groups m" by (simp add: finditer_single_groups)
  note known = single_match_known [OF this assms(3)]
  from match_loop_first [OF single_warnings [OF assms(2) sub] known, of rest out] assms(1)
  show ?thesis by simp
qed

lemma parse_single_none:
  assumes "\<forall>u \<in> set (finditer pattern_single text). book_of u = None"
  shows "match_loop single_match (finditer pattern_single text) out =
     Inr (None, out @ map (\<lambda>u. UnknownBookSingle (book_raw u)) (finditer pattern_single text))"
  using match_loop_none [OF single_warnings [OF assms subset_refl], of out] by simp

lemma first_resolvable:
  "(\<forall>u \<in> set ms. book_of u = None) \<or>
   (\<exists>us m rest bk. ms = us @ m # rest \<and> (\<forall>u \<in> set us. book_of u = None) \<and> book_of m = Some bk)"
proof (cases "\<exists>u \<in> set ms. book_of u \<noteq> None")
  case True
  from split_list_first_prop [OF True] obtain us m rest where
    "ms = us @ m # rest" "book_of m \<noteq> None" "\<forall>u \<in> set us. \<not> book_of u \<noteq> None" by blast
  then show ?thesis by auto
next
  case False
  then show ?thesis by simp
qed

lemma group_int_nonneg:
  assumes "m n = Some w" "digit_string w"
  shows "0 \<le> group_int m n"
  using int_group_digit_string [of m n, OF assms] by simp

lemma range_groups_nonneg:
  assumes "range_groups m"
  shows "0 \<le> group_int m 2 \<and> 0 \<le> group_int m 3 \<and> 0 \<le> group_int m 5
    \<and> (m 4 \<noteq> None \<longrightarrow> 0 \<le> group_int m 4)"
  using assms group_int_nonneg [of m] unfolding range_groups_def by fastforce

lemma single_groups_nonneg:
  assumes "single_groups m"
  shows "0 \<le> group_int m 2 \<and> 0 \<le> group_int m 3"
  using assms group_int_nonneg [of m] unfolding single_groups_def by fastforce

lemma book_of_range: "book_of m = Some bk \<Longrightarrow> 1 \<le> bk \<and> bk \<le> 66"
  using book_lookup_range by (auto simp: book_of_def split: option.splits)

lemma no_match_unless_hangul:
  assumes "s = [] \<or> \<not> is_hangul (hd s)"
  shows "rmatch pattern_range s Map.empty = [] \<and> rmatch pattern_single s Map.empty = []"
proof -
  have "rmatch pattern_range s Map.empty = []"
  proof (rule ccontr)
    assume "rmatch pattern_range s Map.empty \<noteq> []"
    then obtain s' m where "(s', m) \<in> set (rmatch pattern_range s Map.empty)"
      by (cases "rmatch pattern_range s Map.empty") auto
    from in_rmatch_pattern_range [OF this] assms show False by auto
  qed
  moreover have "rmatch pattern_single s Map.empty = []"
  proof (rule ccontr)
    assume "rmatch pattern_single s Map.empty \<noteq> []"
    then obtain s' m where "(s', m) \<in> set (rmatch pattern_single s Map.empty)"
      by (cases "rmatch pattern_single s Map.empty") auto
    from in_rmatch_pattern_single [OF this] assms show False by auto
  qed
  ultimately show ?thesis by simp
qed

lemma no_hangul_no_match:
  assumes "\<forall>c \<in> set s. \<not> is_hangul c"
  shows "finditer pattern_range s = [] \<and> finditer pattern_single s = []"
  using assms
proof (induction s)
  case Nil
  from no_match_unless_hangul [of "[]"] show ?case
    by (simp add: finditer.simps [of _ "[]"])
next
  case (Cons c s)
  from Cons.prems no_match_unless_hangul [of "c # s"] Cons.IH show ?case
    by (simp add: finditer.simps [of _ "c # s"])
qed

section \<open>The claims about the reference parser\<close>

lemmas run_parser =
  parse_bible_text_def parse_matches_def pattern_range_def pattern_single_def book_part_def
  number_group_def Plus_def finditer.simps is_hangul_def is_space_def space_chars_def
  is_decimal_def decimal_digit_def decimal_zeros_def is_ascii_digit_def range_match_def
  single_match_def int_group_def py_int_def int_strip_def is_int_space_def py_strip_def truthy_str_def truthy_int_def
  book_lookup_def alias_name_def book_mapping_def group_list_def book_of_def book_raw_def
  group_int_def




text \<open>
  Claim C3, as the code has it. Every unit that the parser returns has a book between
  1 and 66 and a chapter, a start verse and an end verse that are not negative: the
  numbers are what the text says, and zero is possible. The end verse is not below the
  start verse in every unit of a range over two chapters and of a single reference
  (there the two are equal); the one exception is the single unit of a range inside a
  chapter (no second chapter number, or one equal to the first), whose end verse is
  the number written after the separator.
\<close>

theorem parse_units_bounds:
  assumes "parse_bible_text text = Inr (results, out)"
  shows "(\<forall>u \<in> set results. 1 \<le> v_book u \<and> v_book u \<le> 66 \<and> 0 \<le> v_chapter u
           \<and> 0 \<le> v_start u \<and> 0 \<le> v_end u)
     \<and> ((\<forall>u \<in> set results. v_start u \<le> v_end u)
         \<or> (\<exists>m bk. m \<in> set (finditer pattern_range text) \<and> book_of m = Some bk
               \<and> (m 4 = None \<or> group_int m 2 = group_int m 4)
               \<and> results = [\<lparr>v_book = bk, v_chapter = group_int m 2, v_start = group_int m 3,
                             v_end = group_int m 5\<rparr>]))"
proof -
  let ?R = "finditer pattern_range text" and ?S = "finditer pattern_single text"
  from first_resolvable [of ?R] show ?thesis
  proof
    assume "\<exists>us m rest bk. ?R = us @ m # rest \<and> (\<forall>u \<in> set us. book_of u = None) \<and> book_of m = Some bk"
    then obtain us m rest bk where r: "?R = us @ m # rest" "\<forall>u \<in> set us. book_of u = None"
      "book_of m = Some bk" by blast
    from r(1) have mR: "m \<in> set ?R" by simp
    then have "range_groups m" by (rule finditer_range_groups)
    note nn = range_groups_nonneg [OF this] and bk = book_of_range [OF r(3)]
    from parse_range_first [OF r] assms have res: "results =
       (if m 4 \<noteq> None \<and> group_int m 2 \<noteq> group_int m 4
        then [\<lparr>v_book = bk, v_chapter = group_int m 2, v_start = group_int m 3, v_end = group_int m 3\<rparr>,
              \<lparr>v_book = bk, v_chapter = group_int m 4, v_start = group_int m 5, v_end = group_int m 5\<rparr>]
        else [\<lparr>v_book = bk, v_chapter = group_int m 2, v_start = group_int m 3, v_end = group_int m 5\<rparr>])"
      by (simp add: parse_bible_text_def parse_matches_def)
    show ?thesis
    proof (cases "m 4 \<noteq> None \<and> group_int m 2 \<noteq> group_int m 4")
      case True
      with res have "results =
         [\<lparr>v_book = bk, v_chapter = group_int m 2, v_start = group_int m 3, v_end = group_int m 3\<rparr>,
          \<lparr>v_book = bk, v_chapter = group_int m 4, v_start = group_int m 5, v_end = group_int m 5\<rparr>]"
        by simp
      with True nn bk show ?thesis by simp
    next
      case False
      with res have one: "results =
         [\<lparr>v_book = bk, v_chapter = group_int m 2, v_start = group_int m 3, v_end = group_int m 5\<rparr>]"
        by simp
      from False have "m 4 = None \<or> group_int m 2 = group_int m 4" by blast
      with one mR r(3) have "\<exists>m bk. m \<in> set ?R \<and> book_of m = Some bk
               \<and> (m 4 = None \<or> group_int m 2 = group_int m 4)
               \<and> results = [\<lparr>v_book = bk, v_chapter = group_int m 2, v_start = group_int m 3,
                             v_end = group_int m 5\<rparr>]"
        by blast
      moreover from one nn bk have "\<forall>u \<in> set results. 1 \<le> v_book u \<and> v_book u \<le> 66
           \<and> 0 \<le> v_chapter u \<and> 0 \<le> v_start u \<and> 0 \<le> v_end u"
        by simp
      ultimately show ?thesis by blast
    qed
  next
    assume none: "\<forall>u \<in> set ?R. book_of u = None"
    note loop1 = parse_range_none [OF none]
    from first_resolvable [of ?S] show ?thesis
    proof
      assume "\<exists>us m rest bk. ?S = us @ m # rest \<and> (\<forall>u \<in> set us. book_of u = None) \<and> book_of m = Some bk"
      then obtain us m rest bk where r: "?S = us @ m # rest" "\<forall>u \<in> set us. book_of u = None"
        "book_of m = Some bk" by blast
      from r(1) have "m \<in> set ?S" by simp
      then have "single_groups m" by (rule finditer_single_groups)
      note nn = single_groups_nonneg [OF this] and bk = book_of_range [OF r(3)]
      from loop1 parse_single_first [OF r] assms have "results =
         [\<lparr>v_book = bk, v_chapter = group_int m 2, v_start = group_int m 3, v_end = group_int m 3\<rparr>]"
        by (simp add: parse_bible_text_def parse_matches_def)
      with nn bk show ?thesis by simp
    next
      assume "\<forall>u \<in> set ?S. book_of u = None"
      from loop1 parse_single_none [OF this] assms have "results = []"
        by (simp add: parse_bible_text_def parse_matches_def split: if_splits)
      then show ?thesis by simp
    qed
  qed
qed

text \<open>
  The theorem at Genesis \<^verbatim>\<open>1:5-3\<close>, where the parser returns the one unit of a range
  inside a chapter, and at Numbers \<^verbatim>\<open>23:27~24:9\<close>, where it returns two units.
\<close>

theorem parse_units_bounds_witness:
  "parse_bible_text [0xCC3D, 0xC138, 0xAE30, 0x20, 0x31, 0x3A, 0x35, 0x2D, 0x33] =
     Inr ([\<lparr>v_book = 1, v_chapter = 1, v_start = 5, v_end = 3\<rparr>], [])
   \<and> (1::int) \<le> 1 \<and> (1::int) \<le> 66 \<and> (0::int) \<le> 1 \<and> (0::int) \<le> 5 \<and> (0::int) \<le> 3
   \<and> parse_bible_text
        [0xBBFC, 0xC218, 0xAE30, 0x20, 0x32, 0x33, 0x3A, 0x32, 0x37, 0x7E, 0x32, 0x34, 0x3A, 0x39] =
      Inr ([\<lparr>v_book = 4, v_chapter = 23, v_start = 27, v_end = 27\<rparr>,
            \<lparr>v_book = 4, v_chapter = 24, v_start = 9, v_end = 9\<rparr>], [])
   \<and> (1::int) \<le> 4 \<and> (4::int) \<le> 66 \<and> (0::int) \<le> 23 \<and> (27::int) \<le> 27
   \<and> (0::int) \<le> 24 \<and> (9::int) \<le> 9"
proof -
  have p1: "parse_bible_text [0xCC3D, 0xC138, 0xAE30, 0x20, 0x31, 0x3A, 0x35, 0x2D, 0x33] =
     Inr ([\<lparr>v_book = 1, v_chapter = 1, v_start = 5, v_end = 3\<rparr>], [])"
    by (simp add: run_parser)
  have p2: "parse_bible_text
        [0xBBFC, 0xC218, 0xAE30, 0x20, 0x32, 0x33, 0x3A, 0x32, 0x37, 0x7E, 0x32, 0x34, 0x3A, 0x39] =
      Inr ([\<lparr>v_book = 4, v_chapter = 23, v_start = 27, v_end = 27\<rparr>,
            \<lparr>v_book = 4, v_chapter = 24, v_start = 9, v_end = 9\<rparr>], [])"
    by (simp add: run_parser)
  from parse_units_bounds [OF p1] parse_units_bounds [OF p2] p1 p2 show ?thesis by simp
qed

text \<open>
  The claim as the specification states it fails: Genesis \<^verbatim>\<open>0:0\<close> gives a unit with
  chapter 0 and verses 0, and Genesis \<^verbatim>\<open>1:5-3\<close> gives a unit whose end verse is
  below its start verse.
\<close>

theorem parse_units_positive_counterexample:
  "parse_bible_text [0xCC3D, 0xC138, 0xAE30, 0x20, 0x30, 0x3A, 0x30] =
     Inr ([\<lparr>v_book = 1, v_chapter = 0, v_start = 0, v_end = 0\<rparr>], [])
   \<and> parse_bible_text [0xCC3D, 0xC138, 0xAE30, 0x20, 0x31, 0x3A, 0x35, 0x2D, 0x33] =
     Inr ([\<lparr>v_book = 1, v_chapter = 1, v_start = 5, v_end = 3\<rparr>], [])"
  by (simp add: run_parser)






text \<open>
  Claim C8. For an empty text or a text of white space only, the parser returns the
  empty list and prints nothing. For a text that holds a character other than white
  space and that neither pattern matches, the parser returns the empty list and
  prints the line \<^verbatim>\<open>Warning: Failed to parse\<close>. So the printed lines tell the two
  cases apart, although both return the empty list.
\<close>

theorem parse_blank_or_unmatched:
  "((\<forall>c \<in> set text. is_space c) \<longrightarrow> parse_bible_text text = Inr ([], []))
   \<and> ((\<exists>c \<in> set text. \<not> is_space c) \<and> finditer pattern_range text = []
        \<and> finditer pattern_single text = [] \<longrightarrow>
      parse_bible_text text = Inr ([], [FailedToParse text]))"
proof (intro conjI impI)
  assume blank: "\<forall>c \<in> set text. is_space c"
  then have "\<forall>c \<in> set text. \<not> is_hangul c" by (simp add: space_not_hangul)
  from no_hangul_no_match [OF this] blank show "parse_bible_text text = Inr ([], [])"
    by (simp add: parse_bible_text_def parse_matches_def py_strip_empty_iff)
next
  assume a: "(\<exists>c \<in> set text. \<not> is_space c) \<and> finditer pattern_range text = []
        \<and> finditer pattern_single text = []"
  then have "py_strip text \<noteq> []" by (simp add: py_strip_empty_iff)
  with a show "parse_bible_text text = Inr ([], [FailedToParse text])"
    by (simp add: parse_bible_text_def parse_matches_def)
qed

text \<open>
  The first part at a space followed by a tab, the second part at \<^verbatim>\<open>abc\<close>.
\<close>

theorem parse_blank_or_unmatched_witness:
  "is_space 0x20 \<and> is_space 0x9 \<and> parse_bible_text [0x20, 0x9] = Inr ([], [])
   \<and> \<not> is_space 0x61
   \<and> finditer pattern_range [0x61, 0x62, 0x63] = []
   \<and> finditer pattern_single [0x61, 0x62, 0x63] = []
   \<and> parse_bible_text [0x61, 0x62, 0x63] = Inr ([], [FailedToParse [0x61, 0x62, 0x63]])"
proof -
  have s: "is_space 0x20 \<and> is_space 0x9" by (simp add: is_space_def space_chars_def)
  have n: "\<not> is_space 0x61" by (simp add: is_space_def space_chars_def)
  have f: "finditer pattern_range [0x61, 0x62, 0x63] = []" "finditer pattern_single [0x61, 0x62, 0x63] = []"
    by (simp_all add: run_parser)
  from parse_blank_or_unmatched [of "[0x20, 0x9]", THEN conjunct1] s
  have p1: "parse_bible_text [0x20, 0x9] = Inr ([], [])" by simp
  from parse_blank_or_unmatched [of "[0x61, 0x62, 0x63]", THEN conjunct2] n f
  have p2: "parse_bible_text [0x61, 0x62, 0x63] = Inr ([], [FailedToParse [0x61, 0x62, 0x63]])" by simp
  from s p1 n f p2 show ?thesis by blast
qed



section \<open>The dictionary of the calendar fetcher\<close>

lemma map_of_dict_set: "map_of (dict_set k v d) = (map_of d)(k \<mapsto> v)"
  by (induction d) (auto simp: fun_eq_iff)

lemma keys_dict_set: "fst ` set (dict_set k v d) = insert k (fst ` set d)"
  by (induction d) auto

lemma set_dict_set: "set (dict_set k v d) \<subseteq> insert (k, v) (set d)"
  by (induction d) auto

lemma distinct_dict_set: "distinct (map fst d) \<Longrightarrow> distinct (map fst (dict_set k v d))"
proof (induction d)
  case Nil
  then show ?case by simp
next
  case (Cons kv d)
  from keys_dict_set [of k v d] have "fst kv \<noteq> k \<Longrightarrow> fst kv \<notin> fst ` set d
    \<Longrightarrow> fst kv \<notin> fst ` set (dict_set k v d)" by auto
  with Cons show ?case by auto
qed

lemma keyed_dict_set:
  assumes "keyed_by_day d" "day r = k"
  shows "keyed_by_day (dict_set k r d)"
  using assms distinct_dict_set [of d k r] set_dict_set [of k r d]
  unfolding keyed_by_day_def by fastforce

lemma keyed_dict_update:
  assumes "keyed_by_day d" "\<forall>kv \<in> set ups. day (snd kv) = fst kv"
  shows "keyed_by_day (dict_update ups d)"
  using assms unfolding dict_update_def
  by (induction ups arbitrary: d) (simp_all add: keyed_dict_set)

lemma map_of_dict_update: "map_of (dict_update ups d) = map_of d ++ map_of (rev ups)"
  unfolding dict_update_def
proof (induction ups arbitrary: d)
  case Nil
  then show ?case by simp
next
  case (Cons kv ups)
  show ?case
    by (simp add: Cons map_of_dict_set map_add_def fun_eq_iff split: option.splits)
qed

lemma set_dict_update: "set (dict_update ups d) \<subseteq> set ups \<union> set d"
  unfolding dict_update_def
proof (induction ups arbitrary: d)
  case Nil
  then show ?case by simp
next
  case (Cons kv ups)
  from Cons [of "dict_set (fst kv) (snd kv) d"] set_dict_set [of "fst kv" "snd kv" d]
  show ?case by auto
qed

lemma table_cell_shape:
  "table_cell cell d = d \<or> (\<exists>k r. day r = k \<and> table_cell cell d = dict_set k r d)"
proof (cases "table_cell cell d = d")
  case True
  then show ?thesis by simp
next
  case False
  then obtain x b where "table_cell cell d =
      dict_set (py_strip (text_of x))
        \<lparr>day = py_strip (text_of x), bible = clean b, week = None, title = None\<rparr> d"
    by (auto simp: table_cell_def split: option.splits if_splits)
  moreover have "day \<lparr>day = py_strip (text_of x), bible = clean b, week = None, title = None\<rparr>
      = py_strip (text_of x)" by simp
  ultimately show ?thesis by blast
qed

lemma keyed_table_cell: "keyed_by_day d \<Longrightarrow> keyed_by_day (table_cell cell d)"
  using table_cell_shape [of cell d] keyed_dict_set by metis

lemma keyed_table_cells: "keyed_by_day d \<Longrightarrow> keyed_by_day (fold table_cell cells d)"
  by (induction cells arbitrary: d) (simp_all add: keyed_table_cell)

lemma keyed_table_rows:
  "keyed_by_day d \<Longrightarrow> keyed_by_day (fold (\<lambda>row. fold table_cell (f row)) rows d)"
  by (induction rows arbitrary: d) (simp_all add: keyed_table_cells)

lemma keyed_table_pass: "keyed_by_day d \<Longrightarrow> keyed_by_day (table_pass soup d)"
  by (simp add: table_pass_def keyed_table_rows split: option.splits)

lemma list_row_shape:
  "(\<exists>e. \<forall>d. list_row tr d = Inl e) \<or> (\<forall>d. list_row tr d = Inr d)
   \<or> (\<exists>kv. from_list_view kv \<and> (\<forall>d. list_row tr d = Inr (dict_set (fst kv) (snd kv) d)))"
proof (cases "\<exists>t n ti v d w tt.
    find (ascii ''td'') (has_class (ascii ''time'')) tr = Some t
    \<and> find (ascii ''td'') (has_class (ascii ''name'')) tr = Some n
    \<and> find (ascii ''td'') (has_class (ascii ''title'')) tr = Some ti
    \<and> find (ascii ''td'') (has_class (ascii ''views'')) tr = Some v
    \<and> span_text t = Inr d \<and> span_text n = Inr w \<and> span_text ti = Inr tt")
  case True
  then obtain t n ti v d w tt where f:
    "find (ascii ''td'') (has_class (ascii ''time'')) tr = Some t"
    "find (ascii ''td'') (has_class (ascii ''name'')) tr = Some n"
    "find (ascii ''td'') (has_class (ascii ''title'')) tr = Some ti"
    "find (ascii ''td'') (has_class (ascii ''views'')) tr = Some v"
    "span_text t = Inr d" "span_text n = Inr w" "span_text ti = Inr tt"
    by blast
  let ?kv = "(d, \<lparr>day = d, bible = clean v, week = Some w, title = Some tt\<rparr>)"
  from f have "\<forall>d0. list_row tr d0 = Inr (dict_set (fst ?kv) (snd ?kv) d0)"
    by (simp add: list_row_def)
  moreover have "from_list_view ?kv" by (simp add: from_list_view_def)
  ultimately show ?thesis by blast
next
  case False
  then have "(\<exists>e. \<forall>d. list_row tr d = Inl e) \<or> (\<forall>d. list_row tr d = Inr d)"
    by (auto simp: list_row_def split: option.splits sum.splits)
  then show ?thesis by blast
qed

lemma list_rows_updates:
  assumes "list_rows rows d = Inr d'"
  shows "\<exists>ups. (\<forall>kv \<in> set ups. from_list_view kv)
     \<and> (\<forall>d0. list_rows rows d0 = Inr (dict_update ups d0))"
  using assms
proof (induction rows arbitrary: d d')
  case Nil
  have "\<forall>d0. list_rows [] d0 = Inr (dict_update [] d0)" by (simp add: dict_update_def)
  then show ?case by (intro exI [of _ "[]"]) simp
next
  case (Cons tr rows)
  from Cons.prems obtain d1 where d1: "list_row tr d = Inr d1" "list_rows rows d1 = Inr d'"
    by (auto split: sum.splits)
  from Cons.IH [OF d1(2)] obtain ups where
    ups: "\<forall>kv \<in> set ups. from_list_view kv" "\<forall>d0. list_rows rows d0 = Inr (dict_update ups d0)"
    by blast
  from list_row_shape [of tr] d1(1) consider
    (same) "\<forall>d. list_row tr d = Inr d"
    | (upd) kv where "from_list_view kv" "\<forall>d. list_row tr d = Inr (dict_set (fst kv) (snd kv) d)"
    by auto
  then show ?case
  proof cases
    case same
    with ups have "\<forall>d0. list_rows (tr # rows) d0 = Inr (dict_update ups d0)" by simp
    with ups(1) show ?thesis by blast
  next
    case upd
    with ups have "\<forall>d0. list_rows (tr # rows) d0 = Inr (dict_update (kv # ups) d0)"
      by (simp add: dict_update_def)
    moreover from upd ups(1) have "\<forall>x \<in> set (kv # ups). from_list_view x" by simp
    ultimately show ?thesis by blast
  qed
qed

lemma list_pass_updates:
  assumes "list_pass soup d = Inr d'"
  shows "\<exists>ups. (\<forall>kv \<in> set ups. from_list_view kv)
     \<and> (\<forall>d0. list_pass soup d0 = Inr (dict_update ups d0))"
proof (cases "find (ascii ''div'') (has_class (ascii ''calendar-list'')) soup")
  case None
  then have "\<forall>d0. list_pass soup d0 = Inr (dict_update [] d0)"
    by (simp add: list_pass_def dict_update_def)
  then show ?thesis by (intro exI [of _ "[]"]) simp
next
  case (Some list_view)
  with assms list_rows_updates [of "find_all (ascii ''tr'') person_row list_view" d d']
  show ?thesis by (simp add: list_pass_def)
qed

lemma filter_day_keyed:
  assumes "keyed_by_day d" "map_of d k = Some r"
  shows "filter (\<lambda>x. day x = k) (map snd d) = [r]"
  using assms
proof (induction d)
  case Nil
  then show ?case by simp
next
  case (Cons kv d)
  from Cons.prems(1) have kd: "keyed_by_day d" and kv: "day (snd kv) = fst kv"
    and fresh: "fst kv \<notin> fst ` set d"
    by (auto simp: keyed_by_day_def)
  show ?case
  proof (cases "fst kv = k")
    case True
    with Cons.prems(2) have r: "snd kv = r" by (cases kv) simp
    from Cons.prems(1) have "\<forall>x \<in> set d. day (snd x) = fst x" by (simp add: keyed_by_day_def)
    have "filter (\<lambda>x. day x = k) (map snd d) = []"
    proof (rule ccontr)
      assume "filter (\<lambda>x. day x = k) (map snd d) \<noteq> []"
      then obtain x where "x \<in> set d" "day (snd x) = k"
        by (auto simp: filter_empty_conv)
      with \<open>\<forall>x \<in> set d. day (snd x) = fst x\<close> True have "fst x = fst kv" by simp
      moreover from \<open>x \<in> set d\<close> have "fst x \<in> fst ` set d" by (rule imageI)
      ultimately show False using fresh by simp
    qed
    with True kv r show ?thesis by simp
  next
    case False
    with Cons.prems(2) have "map_of d k = Some r" by (cases kv) simp
    from Cons.IH [OF kd this] False kv show ?thesis by simp
  qed
qed

lemma distinct_days_keyed:
  assumes "keyed_by_day d"
  shows "distinct (map day (map snd d))"
proof -
  from assms have eq: "map day (map snd d) = map fst d" by (simp add: keyed_by_day_def)
  from assms have "distinct (map fst d)" by (simp add: keyed_by_day_def)
  then show ?thesis by (simp only: eq)
qed

lemma sorted_by_day_props:
  assumes "sorted_by_day rs = Inr sched"
  shows "sched = sort_key day_number rs \<and> (\<forall>r \<in> set rs. py_int (day r) = Some (day_number r))"
  using assms
  by (auto simp: sorted_by_day_def day_number_def list_all_iff split: if_splits)

lemma distinct_map_sort_key:
  "distinct (map f (sort_key k xs)) = distinct (map f xs)"
  by (simp add: distinct_map)


lemma schedule_of_soup_keyed:
  assumes "schedule_of_soup soup = Inr sched"
  shows "\<exists>d ups. keyed_by_day d \<and> sched = sort_key day_number (map snd d)
     \<and> (\<forall>r \<in> set sched. py_int (day r) = Some (day_number r))
     \<and> (\<forall>kv \<in> set ups. from_list_view kv)
     \<and> list_pass soup [] = Inr (dict_update ups [])
     \<and> d = dict_update ups (table_pass soup [])"
proof -
  from assms obtain d where d: "list_pass soup (table_pass soup []) = Inr d"
    "sorted_by_day (map snd d) = Inr sched"
    by (auto simp: schedule_of_soup_def split: sum.splits)
  from list_pass_updates [OF d(1)] obtain ups where
    ups: "\<forall>kv \<in> set ups. from_list_view kv" "\<forall>d0. list_pass soup d0 = Inr (dict_update ups d0)"
    by blast
  from ups(2) d(1) have eq: "d = dict_update ups (table_pass soup [])" by simp
  have "keyed_by_day []" by (simp add: keyed_by_day_def)
  then have "keyed_by_day (table_pass soup [])" by (rule keyed_table_pass)
  moreover from ups(1) have "\<forall>kv \<in> set ups. day (snd kv) = fst kv" by (simp add: from_list_view_def)
  ultimately have "keyed_by_day d" unfolding eq by (rule keyed_dict_update)
  moreover from sorted_by_day_props [OF d(2)]
  have "sched = sort_key day_number (map snd d)" "\<forall>r \<in> set sched. py_int (day r) = Some (day_number r)"
    by simp_all
  ultimately show ?thesis using ups eq by blast
qed

lemma get_qt_schedule_soup:
  assumes "get_qt_schedule http_get year month = Inr (Some sched, out)"
  shows "\<exists>soup. http_get (calendar_url year month) = Some soup \<and> schedule_of_soup soup = Inr sched"
  using assms by (auto simp: get_qt_schedule_def split: option.splits sum.splits)

section \<open>The claims about the calendar fetcher\<close>

declare py_split.simps [simp del]

lemma person_row_person: "person_row (Some [[0x70, 0x65, 0x72, 0x73, 0x6F, 0x6E]])"
proof -
  have "py_split [0x70, 0x65, 0x72, 0x73, 0x6F, 0x6E] = [[0x70, 0x65, 0x72, 0x73, 0x6F, 0x6E]]"
    by (simp add: py_split.simps is_space_def space_chars_def)
  moreover have "ascii ''person'' = [0x70, 0x65, 0x72, 0x73, 0x6F, 0x6E]" by (simp add: ascii_def)
  ultimately show ?thesis by (simp add: person_row_def class_matches_def)
qed

lemmas run_fetcher =
  get_qt_schedule_def serve_def schedule_of_soup_def table_pass_def list_pass_def list_row_def
  span_text_def find_def find_all_def has_class_def person_row_person class_matches_def ascii_def
  table_cell_def clean_def py_strip_def is_space_def space_chars_def sorted_by_day_def
  day_number_def py_int_def int_strip_def is_int_space_def decimal_digit_def decimal_zeros_def table_td_def list_tr_def
  calendar_page_def

text \<open>
  Claim C6, as the code has it. The passes store their records under the day text,
  the key of \<^verbatim>\<open>schedule_data\<close>. When the function returns a schedule for the
  fetched document, the list pass run on its own gives a dictionary \<open>from_list\<close>, and
  for every day text that has a record there, the schedule holds exactly one record
  with that day text, and it is the record of the list pass with all its fields
  (reference text, week label and title, both present), whatever the table pass
  stored under the same day text.
\<close>

theorem list_pass_supersedes_table_pass:
  assumes "http_get (calendar_url year month) = Some soup"
    and "get_qt_schedule http_get year month = Inr (Some sched, out)"
  shows "\<exists>from_list. list_pass soup [] = Inr from_list
     \<and> (\<forall>k r. map_of from_list k = Some r \<longrightarrow>
           filter (\<lambda>x. day x = k) sched = [r] \<and> week r \<noteq> None \<and> title r \<noteq> None)"
proof -
  from assms have "schedule_of_soup soup = Inr sched"
    by (auto simp: get_qt_schedule_def split: sum.splits)
  from schedule_of_soup_keyed [OF this] obtain d ups where
    k: "keyed_by_day d" and s: "sched = sort_key day_number (map snd d)"
    and v: "\<forall>kv \<in> set ups. from_list_view kv"
    and l: "list_pass soup [] = Inr (dict_update ups [])"
    and d: "d = dict_update ups (table_pass soup [])"
    by blast
  have "filter (\<lambda>x. day x = k) sched = [r] \<and> week r \<noteq> None \<and> title r \<noteq> None"
    if m: "map_of (dict_update ups []) k = Some r" for k r
  proof -
    from m have rev: "map_of (rev ups) k = Some r" by (simp add: map_of_dict_update)
    then have "map_of d k = Some r" unfolding d by (simp add: map_of_dict_update)
    from filter_day_keyed [OF k this] have "filter (\<lambda>x. day x = k) sched = [r]"
      unfolding s by (simp add: filter_sort)
    moreover from map_of_SomeD [OF rev] v have "from_list_view (k, r)" by auto
    ultimately show ?thesis by (simp add: from_list_view_def)
  qed
  with l show ?thesis by blast
qed

text \<open>
  The theorem at a page where day 5 has a cell in the table view and a row in the
  list view, with different reference texts.
\<close>

theorem list_pass_supersedes_table_pass_witness:
  "serve (calendar_page [table_td ''5'' ''a''] [list_tr ''5'' ''Sun'' ''T'' ''b''])
      (calendar_url 2025 5)
     = Some (calendar_page [table_td ''5'' ''a''] [list_tr ''5'' ''Sun'' ''T'' ''b''])
   \<and> table_pass (calendar_page [table_td ''5'' ''a''] [list_tr ''5'' ''Sun'' ''T'' ''b'']) [] =
       [(ascii ''5'', \<lparr>day = ascii ''5'', bible = ascii ''a'', week = None, title = None\<rparr>)]
   \<and> list_pass (calendar_page [table_td ''5'' ''a''] [list_tr ''5'' ''Sun'' ''T'' ''b'']) [] =
       Inr [(ascii ''5'', \<lparr>day = ascii ''5'', bible = ascii ''b'', week = Some (ascii ''Sun''),
                           title = Some (ascii ''T'')\<rparr>)]
   \<and> get_qt_schedule
        (serve (calendar_page [table_td ''5'' ''a''] [list_tr ''5'' ''Sun'' ''T'' ''b''])) 2025 5 =
       Inr (Some [\<lparr>day = ascii ''5'', bible = ascii ''b'', week = Some (ascii ''Sun''),
                   title = Some (ascii ''T'')\<rparr>], [])"
proof -
  let ?page = "calendar_page [table_td ''5'' ''a''] [list_tr ''5'' ''Sun'' ''T'' ''b'']"
  let ?r = "\<lparr>day = ascii ''5'', bible = ascii ''b'', week = Some (ascii ''Sun''),
              title = Some (ascii ''T'')\<rparr>"
  have h: "serve ?page (calendar_url 2025 5) = Some ?page" by (simp add: serve_def)
  have t: "table_pass ?page [] =
       [(ascii ''5'', \<lparr>day = ascii ''5'', bible = ascii ''a'', week = None, title = None\<rparr>)]"
    by (simp add: run_fetcher)
  have l: "list_pass ?page [] = Inr [(ascii ''5'', ?r)]" by (simp add: run_fetcher)
  have g: "get_qt_schedule (serve ?page) 2025 5 = Inr (Some [?r], [])" by (simp add: run_fetcher)
  from list_pass_supersedes_table_pass [OF h g] l
  have "filter (\<lambda>x. day x = ascii ''5'') [?r] = [?r] \<and> week ?r \<noteq> None \<and> title ?r \<noteq> None"
    by simp
  with h t l g show ?thesis by simp
qed

text \<open>
  The claim as the specification states it, for the day of the month, fails: when the
  table view writes the first day as \<^verbatim>\<open>01\<close> and the list view writes it as \<^verbatim>\<open>1\<close>,
  the two passes use different keys, and the record of the table pass stays in the
  schedule, before the record of the list pass, both with the number 1.
\<close>

theorem list_pass_other_day_text_counterexample:
  "table_pass (calendar_page [table_td ''01'' ''a''] [list_tr ''1'' ''Sun'' ''T'' ''b'']) [] =
       [(ascii ''01'', \<lparr>day = ascii ''01'', bible = ascii ''a'', week = None, title = None\<rparr>)]
   \<and> list_pass (calendar_page [table_td ''01'' ''a''] [list_tr ''1'' ''Sun'' ''T'' ''b'']) [] =
       Inr [(ascii ''1'', \<lparr>day = ascii ''1'', bible = ascii ''b'', week = Some (ascii ''Sun''),
                           title = Some (ascii ''T'')\<rparr>)]
   \<and> get_qt_schedule
        (serve (calendar_page [table_td ''01'' ''a''] [list_tr ''1'' ''Sun'' ''T'' ''b''])) 2025 5 =
       Inr (Some [\<lparr>day = ascii ''01'', bible = ascii ''a'', week = None, title = None\<rparr>,
                  \<lparr>day = ascii ''1'', bible = ascii ''b'', week = Some (ascii ''Sun''),
                    title = Some (ascii ''T'')\<rparr>], [])
   \<and> py_int (ascii ''01'') = Some 1 \<and> py_int (ascii ''1'') = Some 1"
  by (simp add: run_fetcher)

text \<open>
  Claim C7, as the code has it. The records are stored under the day text and sorted
  by the number that the text denotes. So the schedule is ascending by that number,
  every day text is that of a number, and no two records have the same day text; it is
  strictly ascending when no two day texts denote the same number.
\<close>

theorem schedule_ascending_distinct_day_texts:
  assumes "get_qt_schedule http_get year month = Inr (Some sched, out)"
  shows "sorted (map day_number sched) \<and> distinct (map day sched)
     \<and> (\<forall>r \<in> set sched. py_int (day r) = Some (day_number r))
     \<and> (distinct (map day_number sched) \<longrightarrow> sorted_wrt (<) (map day_number sched))"
proof -
  from get_qt_schedule_soup [OF assms] obtain soup where "schedule_of_soup soup = Inr sched"
    by blast
  from schedule_of_soup_keyed [OF this] obtain d where
    k: "keyed_by_day d" and s: "sched = sort_key day_number (map snd d)"
    and v: "\<forall>r \<in> set sched. py_int (day r) = Some (day_number r)"
    by blast
  have "sorted (map day_number sched)" unfolding s by (rule sorted_sort_key)
  moreover from distinct_days_keyed [OF k] have "distinct (map day sched)"
    unfolding s by (simp only: distinct_map_sort_key)
  ultimately show ?thesis using v by (simp add: strict_sorted_iff)
qed

text \<open>The theorem at a page whose table view has the days 2 and 1, in that order.\<close>

theorem schedule_ascending_distinct_day_texts_witness:
  "get_qt_schedule (serve (calendar_page [table_td ''2'' ''a'', table_td ''1'' ''b''] [])) 2025 5 =
     Inr (Some [\<lparr>day = ascii ''1'', bible = ascii ''b'', week = None, title = None\<rparr>,
                \<lparr>day = ascii ''2'', bible = ascii ''a'', week = None, title = None\<rparr>], [])
   \<and> map day_number [\<lparr>day = ascii ''1'', bible = ascii ''b'', week = None, title = None\<rparr>,
                \<lparr>day = ascii ''2'', bible = ascii ''a'', week = None, title = None\<rparr>] = [1, 2]
   \<and> sorted_wrt (<) [1, 2 :: int]"
proof -
  let ?page = "calendar_page [table_td ''2'' ''a'', table_td ''1'' ''b''] []"
  let ?s = "[\<lparr>day = ascii ''1'', bible = ascii ''b'', week = None, title = None\<rparr>,
             \<lparr>day = ascii ''2'', bible = ascii ''a'', week = None, title = None\<rparr>]"
  have g: "get_qt_schedule (serve ?page) 2025 5 = Inr (Some ?s, [])" by (simp add: run_fetcher)
  have n: "map day_number ?s = [1, 2]" by (simp add: run_fetcher)
  from schedule_ascending_distinct_day_texts [OF g] n have "sorted_wrt (<) [1, 2 :: int]" by simp
  with g n show ?thesis by simp
qed

text \<open>
  The claim as the specification states it fails: when the table view has one cell
  with the day text \<^verbatim>\<open>01\<close> and one with \<^verbatim>\<open>1\<close>, the keys differ, both records stay,
  and both have the number 1.
\<close>

theorem schedule_duplicate_day_counterexample:
  "get_qt_schedule (serve (calendar_page [table_td ''01'' ''a'', table_td ''1'' ''b''] [])) 2025 5 =
     Inr (Some [\<lparr>day = ascii ''01'', bible = ascii ''a'', week = None, title = None\<rparr>,
                \<lparr>day = ascii ''1'', bible = ascii ''b'', week = None, title = None\<rparr>], [])
   \<and> map day_number [\<lparr>day = ascii ''01'', bible = ascii ''a'', week = None, title = None\<rparr>,
                \<lparr>day = ascii ''1'', bible = ascii ''b'', week = None, title = None\<rparr>] = [1, 1]"
  by (simp add: run_fetcher)

section \<open>The claim about the date resolver\<close>

text \<open>
  Claim C2, as the code has it. For a time zone name that the library does not know,
  \<^verbatim>\<open>timestamp_to_qt_data_ms\<close> returns the empty list for every timestamp. When the
  timestamp can be converted to a date, it catches \<^verbatim>\<open>UnknownTimeZoneError\<close> and
  prints the line \<^verbatim>\<open>Error: Unknown timezone\<close> and nothing else. When the timestamp is
  out of the range of dates, the conversion comes first and fails, and the function
  prints the line \<^verbatim>\<open>An unexpected error occurred\<close> instead. The error that the
  caller can tell from an empty result is produced one level up: the endpoint looks
  the name up before it calls the resolver and answers with status 400 and the
  message \<^verbatim>\<open>Invalid timezone\<close>, for every timestamp parameter that is an integer.
\<close>

theorem unknown_timezone_empty_list_and_endpoint_error:
  assumes "timezone clk timezone_str = None"
  shows "fst (timestamp_to_qt_data_ms clk http_get timestamp_ms timezone_str) = []
     \<and> (fromtimestamp clk timestamp_ms \<noteq> None \<longrightarrow>
          timestamp_to_qt_data_ms clk http_get timestamp_ms timezone_str =
            ([], [UnknownTimezone timezone_str]))
     \<and> (fromtimestamp clk timestamp_ms = None \<longrightarrow>
          timestamp_to_qt_data_ms clk http_get timestamp_ms timezone_str = ([], [UnexpectedError]))
     \<and> (ts \<noteq> [] \<and> py_int ts = Some timestamp_ms \<longrightarrow>
          get_qt_bible_data clk http_get (Some ts) (Some timezone_str) = InvalidTimezone timezone_str
          \<and> status (get_qt_bible_data clk http_get (Some ts) (Some timezone_str)) = 400)"
  using assms
  by (auto simp: timestamp_to_qt_data_ms_def get_qt_bible_data_def status_def split: option.splits)

text \<open>
  The theorem at the clock of the examples, which does not know \<^verbatim>\<open>Mars/Olympus\<close>,
  with the timestamp of the example in the source, and with the timestamp
  \<^verbatim>\<open>1000000000000000\<close>, which is beyond the year 9999.
\<close>

theorem unknown_timezone_empty_list_and_endpoint_error_witness:
  "timezone test_clock (ascii ''Mars/Olympus'') = None
   \<and> fromtimestamp test_clock 1747551764480 \<noteq> None
   \<and> ascii ''1747551764480'' \<noteq> [] \<and> py_int (ascii ''1747551764480'') = Some 1747551764480
   \<and> timestamp_to_qt_data_ms test_clock offline 1747551764480 (ascii ''Mars/Olympus'') =
       ([], [UnknownTimezone (ascii ''Mars/Olympus'')])
   \<and> get_qt_bible_data test_clock offline (Some (ascii ''1747551764480'')) (Some (ascii ''Mars/Olympus''))
       = InvalidTimezone (ascii ''Mars/Olympus'')
   \<and> status (get_qt_bible_data test_clock offline (Some (ascii ''1747551764480''))
        (Some (ascii ''Mars/Olympus''))) = 400
   \<and> fromtimestamp test_clock 1000000000000000 = None
   \<and> timestamp_to_qt_data_ms test_clock offline 1000000000000000 (ascii ''Mars/Olympus'') =
       ([], [UnexpectedError])"
proof -
  have z: "timezone test_clock (ascii ''Mars/Olympus'') = None"
    by (simp add: test_clock_def ascii_def)
  have f: "fromtimestamp test_clock 1747551764480 \<noteq> None" by (simp add: test_clock_def)
  have g: "fromtimestamp test_clock 1000000000000000 = None" by (simp add: test_clock_def)
  have i: "ascii ''1747551764480'' \<noteq> [] \<and> py_int (ascii ''1747551764480'') = Some 1747551764480"
    by (simp add: ascii_def py_int_def int_strip_def is_int_space_def is_space_def space_chars_def
        decimal_digit_def decimal_zeros_def)
  from unknown_timezone_empty_list_and_endpoint_error
    [OF z, of offline 1747551764480 "ascii ''1747551764480''"] f i z
  have a: "timestamp_to_qt_data_ms test_clock offline 1747551764480 (ascii ''Mars/Olympus'') =
       ([], [UnknownTimezone (ascii ''Mars/Olympus'')])
   \<and> get_qt_bible_data test_clock offline (Some (ascii ''1747551764480'')) (Some (ascii ''Mars/Olympus''))
       = InvalidTimezone (ascii ''Mars/Olympus'')
   \<and> status (get_qt_bible_data test_clock offline (Some (ascii ''1747551764480''))
        (Some (ascii ''Mars/Olympus''))) = 400"
    by blast
  from unknown_timezone_empty_list_and_endpoint_error
    [OF z, of offline 1000000000000000 "ascii ''1747551764480''"] g
  have b: "timestamp_to_qt_data_ms test_clock offline 1000000000000000 (ascii ''Mars/Olympus'') =
       ([], [UnexpectedError])"
    by blast
  from z f i a g b show ?thesis by blast
qed

text \<open>
  The claim as the specification states it fails for the resolver: for the unknown
  zone \<^verbatim>\<open>Mars/Olympus\<close> it returns the empty list, as it does when there is no data;
  only the printed line differs.
\<close>

theorem resolver_unknown_timezone_counterexample:
  "timezone test_clock (ascii ''Mars/Olympus'') = None
   \<and> timestamp_to_qt_data_ms test_clock offline 1747551764480 (ascii ''Mars/Olympus'') =
       ([], [UnknownTimezone (ascii ''Mars/Olympus'')])
   \<and> fst (timestamp_to_qt_data_ms test_clock offline 1747551764480 (ascii ''Asia/Seoul'')) = []"
  by (simp add: timestamp_to_qt_data_ms_def test_clock_def offline_def get_qt_schedule_def ascii_def)

end
